theory Spec2Isabelle
  imports Main "HOL-Library.Word"
begin

section \<open>Machine types and failures\<close>

text \<open>
  The C++ types of CUDASymmetricMemory.cu on a 64-bit platform: \<open>int\<close> is a 32-bit
  two's complement word (read with \<open>sint\<close>), \<open>size_t\<close>, pointers and driver handles
  are 64-bit unsigned words (read with \<open>unat\<close>), \<open>int64_t\<close> is a 64-bit word read
  with \<open>sint\<close>.
\<close>

type_synonym c_int = "32 word"
type_synonym size_t = "64 word"
type_synonym int64 = "64 word"
type_synonym ptr = "64 word"
type_synonym handle_type = "64 word"
type_synonym byte = "8 word"

text \<open>
  Every way a call can end without returning normally. \<open>Check_failed\<close> is a failing
  \<open>TORCH_CHECK\<close> (one constructor of \<open>check\<close> per check of the file, in source
  order), \<open>Driver_error\<close> a failing \<open>C10_CUDA_DRIVER_CHECK\<close>, \<open>AT_CUDA_CHECK\<close> or
  \<open>C10_CUDA_CHECK\<close> with the status the call returned, \<open>Store_blocked\<close> a
  \<open>store->wait\<close> that does not return, and \<open>Undefined_behaviour\<close> an execution the
  C++ standard gives no meaning to.
\<close>

datatype check =
    Payload_size
  | Get_buffer_size_exceeded
  | Channel_negative
  | Channel_too_large
  | Get_alloc_size_unknown
  | Request_count
  | Overlapping_devices
  | Block_size_mismatch
  | Buffer_size_mismatch
  | Signal_pad_offset_mismatch
  | Rendezvous_unknown
  | Is_rendezvous_completed_unknown

datatype ub = Signed_overflow | Index_out_of_range | Division_by_zero

datatype error =
    Check_failed check
  | Driver_error nat
  | Store_blocked
  | Undefined_behaviour ub

section \<open>Constants\<close>

definition signal_pad_size :: size_t where
  "signal_pad_size = 2048"

definition sizeof_uint32 :: size_t where
  "sizeof_uint32 = 4"

definition store_comm_prefix :: string where
  "store_comm_prefix = ''CUDASymmetricMemory''"

text \<open>
  \<open>C10_WARP_SIZE\<close>, the block size of the three kernel launches, is a macro defined
  outside this file; 32 is its value on CUDA devices.
\<close>

definition C10_WARP_SIZE :: nat where
  "C10_WARP_SIZE = 32"

section \<open>Channel check\<close>

text \<open>
  \<open>check_channel(int channel, int world_size)\<close>: the first check compares the signed
  channel with 0; the bound \<open>num_channels\<close> is computed in \<open>size_t\<close>, the \<open>int\<close>
  operand \<open>world_size\<close> being converted by sign extension, and the channel is compared
  after \<open>static_cast<size_t>\<close>.
\<close>

definition num_channels :: "c_int \<Rightarrow> size_t" where
  "num_channels world_size = signal_pad_size div sizeof_uint32 * scast world_size"

definition check_channel :: "c_int \<Rightarrow> c_int \<Rightarrow> error + unit" where
  "check_channel channel world_size =
     (if \<not> (0 \<le> sint channel) then Inl (Check_failed Channel_negative)
      else if \<not> ((scast channel :: size_t) < num_channels world_size)
        then Inl (Check_failed Channel_too_large)
      else Inr ())"

text \<open>
  The channel count as the specification words it:
  \<open>channel_count = signal_pad_bytes / 4 / world_size\<close>, on mathematical integers.
\<close>

definition spec_channel_count :: "int \<Rightarrow> int" where
  "spec_channel_count world_size = 2048 div 4 div world_size"

section \<open>The symmetric memory object\<close>

text \<open>
  The members of \<open>CUDASymmetricMemory\<close>: \<open>sm_buffer_size\<close> is the member
  \<open>buffer_size_\<close>, and so on for each. \<open>buffers_dev_\<close> and \<open>signal_pads_dev_\<close> are
  the addresses of the device-resident tables; their contents are the copies of
  \<open>buffers_\<close> and \<open>signal_pads_\<close> that the constructor uploads.
\<close>

record symmetric_memory =
  sm_handles :: "handle_type list"
  sm_block_size :: size_t
  sm_buffers :: "ptr list"
  sm_signal_pads :: "ptr list"
  sm_buffer_size :: size_t
  sm_local_device_idx :: c_int
  sm_rank :: c_int
  sm_world_size :: c_int
  sm_buffers_dev :: ptr
  sm_signal_pads_dev :: ptr

subsection \<open>\<open>get_buffer\<close>\<close>

text \<open>
  What \<open>at::for_blob(data, sizes).storage_offset(..).options(..).target_device(..)
  .make_tensor()\<close> is given: the view is external to this file and is modelled by the
  arguments it is built from.
\<close>

record 'dtype tensor =
  data_ptr :: ptr
  sizes :: "int64 list"
  storage_offset :: int64
  dtype :: 'dtype
  device :: c_int

text \<open>
  \<open>std::accumulate(sizes.begin(), sizes.end(), 1, std::multiplies<int>())\<close>: the
  initial value \<open>1\<close> is an \<open>int\<close>, so the accumulator is an \<open>int\<close>, and
  \<open>std::multiplies<int>\<close> takes each \<open>int64_t\<close> element converted to \<open>int\<close> (the low
  32 bits). A product outside the range of \<open>int\<close> is a signed overflow.
\<close>

fun accumulate_multiplies :: "c_int \<Rightarrow> int64 list \<Rightarrow> error + c_int" where
  "accumulate_multiplies acc [] = Inr acc"
| "accumulate_multiplies acc (d # ds) =
     (let y = (ucast d :: c_int) in
      if sint acc * sint y < - (2 ^ 31) \<or> 2 ^ 31 \<le> sint acc * sint y
        then Inl (Undefined_behaviour Signed_overflow)
      else accumulate_multiplies (acc * y) ds)"

text \<open>
  A \<open>std::vector\<close> indexed by an \<open>int\<close>: the index is converted to \<open>size_t\<close>, and an
  index outside the vector is undefined behaviour.
\<close>

definition vector_at :: "'a list \<Rightarrow> c_int \<Rightarrow> error + 'a" where
  "vector_at xs i =
     (if unat (scast i :: size_t) < length xs then Inr (xs ! unat (scast i :: size_t))
      else Inl (Undefined_behaviour Index_out_of_range))"

text \<open>
  \<open>get_buffer(rank, sizes, dtype, storage_offset)\<close>. \<open>c10::elementSize\<close> is a table
  outside this file and is the parameter \<open>elementSize\<close>. \<open>numel + storage_offset\<close> is
  an \<open>int64_t\<close> addition; the product with the \<open>size_t\<close> element size and the
  comparison with \<open>buffer_size_\<close> are unsigned.
\<close>

definition get_buffer ::
  "('dtype \<Rightarrow> size_t) \<Rightarrow> symmetric_memory \<Rightarrow> c_int \<Rightarrow> int64 list \<Rightarrow> 'dtype \<Rightarrow> int64
     \<Rightarrow> error + 'dtype tensor" where
  "get_buffer elementSize sm rank szs dt offset =
     (case accumulate_multiplies 1 szs of
        Inl e \<Rightarrow> Inl e
      | Inr numel \<Rightarrow>
          let element_size = elementSize dt in
          if sint numel + sint offset < - (2 ^ 63) \<or> 2 ^ 63 \<le> sint numel + sint offset
            then Inl (Undefined_behaviour Signed_overflow)
          else
            let req_size = ((scast numel :: int64) + offset) * element_size in
            if \<not> (req_size \<le> sm_buffer_size sm) then Inl (Check_failed Get_buffer_size_exceeded)
            else
              (case vector_at (sm_buffers sm) rank of
                 Inl e \<Rightarrow> Inl e
               | Inr p \<Rightarrow>
                   Inr \<lparr>data_ptr = p, sizes = szs, storage_offset = offset, dtype = dt,
                        device = sm_local_device_idx sm\<rparr>))"

text \<open>
  The condition of the specification, on mathematical integers:
  \<open>(numel(shape) + offset) * elementSize(dtype) \<le> buffer_size\<close>.
\<close>

definition spec_request_fits :: "size_t \<Rightarrow> symmetric_memory \<Rightarrow> int64 list \<Rightarrow> int64 \<Rightarrow> bool" where
  "spec_request_fits element_size sm szs offset \<longleftrightarrow>
     (prod_list (map sint szs) + sint offset) * uint element_size \<le> uint (sm_buffer_size sm)"

subsection \<open>Signal kernels\<close>

text \<open>
  What a kernel thread does to the signal pads: \<open>release_signal\<close> or
  \<open>acquire_signal\<close> on the 4-byte slot at an address, or \<open>__threadfence_system\<close>.
\<close>

datatype signal_op = Release_signal ptr | Acquire_signal ptr | Threadfence_system

text \<open>
  \<open>signal_pads[r] + world_size * channel + rank\<close> on a \<open>uint32_t*\<close>: the table of
  pad pointers is read at \<open>r\<close> (a read outside the table is undefined), the \<open>int\<close>
  expression \<open>world_size * channel\<close> is added first and \<open>rank\<close> second, each scaled by
  the 4 bytes of a \<open>uint32_t\<close>; an \<open>int\<close> product outside the range of \<open>int\<close> is a
  signed overflow.
\<close>

definition slot_address :: "ptr list \<Rightarrow> c_int \<Rightarrow> c_int \<Rightarrow> c_int \<Rightarrow> c_int \<Rightarrow> error + ptr" where
  "slot_address signal_pads r world_size channel rank =
     (case vector_at signal_pads r of
        Inl e \<Rightarrow> Inl e
      | Inr base \<Rightarrow>
          if sint world_size * sint channel < - (2 ^ 31) \<or> 2 ^ 31 \<le> sint world_size * sint channel
            then Inl (Undefined_behaviour Signed_overflow)
          else Inr (base + 4 * scast (world_size * channel) + 4 * scast rank))"

text \<open>
  The kernels, per thread: \<open>tid\<close> is \<open>threadIdx.x\<close>. In \<open>barrier_kernel\<close> the
  comparison \<open>threadIdx.x < world_size\<close> is unsigned (\<open>threadIdx.x\<close> is an
  \<open>unsigned int\<close>), and \<open>target_rank\<close> is the thread index.
\<close>

definition barrier_kernel :: "ptr list \<Rightarrow> c_int \<Rightarrow> c_int \<Rightarrow> c_int \<Rightarrow> nat \<Rightarrow> error + signal_op list" where
  "barrier_kernel signal_pads channel rank world_size tid =
     (if tid < unat world_size then
        (case slot_address signal_pads (of_nat tid) world_size channel rank of
           Inl e \<Rightarrow> Inl e
         | Inr a \<Rightarrow>
             (case slot_address signal_pads rank world_size channel (of_nat tid) of
                Inl e \<Rightarrow> Inl e
              | Inr b \<Rightarrow> Inr [Release_signal a, Acquire_signal b]))
      else Inr [])"

definition put_signal_kernel ::
  "ptr list \<Rightarrow> c_int \<Rightarrow> c_int \<Rightarrow> c_int \<Rightarrow> c_int \<Rightarrow> nat \<Rightarrow> error + signal_op list" where
  "put_signal_kernel signal_pads dst_rank channel rank world_size tid =
     (if tid = 0 then
        (case slot_address signal_pads dst_rank world_size channel rank of
           Inl e \<Rightarrow> Inl e
         | Inr a \<Rightarrow> Inr [Release_signal a])
      else Inr [])"

definition wait_signal_kernel ::
  "ptr list \<Rightarrow> c_int \<Rightarrow> c_int \<Rightarrow> c_int \<Rightarrow> c_int \<Rightarrow> nat \<Rightarrow> error + signal_op list" where
  "wait_signal_kernel signal_pads src_rank channel rank world_size tid =
     (if tid = 0 then
        (case slot_address signal_pads rank world_size channel src_rank of
           Inl e \<Rightarrow> Inl e
         | Inr a \<Rightarrow> Inr [Acquire_signal a, Threadfence_system])
      else Inr [Threadfence_system])"

text \<open>
  A kernel launch \<open><<<1, C10_WARP_SIZE, 0, stream>>>\<close> as the host enqueues it: the
  kernel and its arguments. The first argument of each kernel is the device table
  \<open>signal_pads_dev_\<close>, given here by its contents.
\<close>

datatype launch =
    Launch_barrier "ptr list" c_int c_int c_int
  | Launch_put_signal "ptr list" c_int c_int c_int c_int
  | Launch_wait_signal "ptr list" c_int c_int c_int c_int

fun run_thread :: "launch \<Rightarrow> nat \<Rightarrow> error + signal_op list" where
  "run_thread (Launch_barrier pads channel rank world_size) tid =
     barrier_kernel pads channel rank world_size tid"
| "run_thread (Launch_put_signal pads dst_rank channel rank world_size) tid =
     put_signal_kernel pads dst_rank channel rank world_size tid"
| "run_thread (Launch_wait_signal pads src_rank channel rank world_size) tid =
     wait_signal_kernel pads src_rank channel rank world_size tid"

definition run_launch :: "launch \<Rightarrow> (error + signal_op list) list" where
  "run_launch l = map (run_thread l) [0..<C10_WARP_SIZE]"

text \<open>
  The slot layout as the specification words it: slot \<open>(dst, channel)\<close> of a pad is at
  byte offset \<open>channel * world_size * 4 + dst * 4\<close> from the pad base.
\<close>

definition spec_slot_offset :: "int \<Rightarrow> int \<Rightarrow> int \<Rightarrow> int" where
  "spec_slot_offset world_size dst channel = channel * world_size * 4 + dst * 4"

text \<open>
  A symmetric memory object of rank 0 in a group of two, with 4096 bytes of payload, as
  a rendezvous leaves it: the pads follow the payload in each mapped block.
\<close>

definition example_symm :: symmetric_memory where
  "example_symm =
     \<lparr>sm_handles = [1, 2], sm_block_size = 2097152, sm_buffers = [1048576, 4194304],
      sm_signal_pads = [1048576 + 4096, 4194304 + 4096], sm_buffer_size = 4096,
      sm_local_device_idx = 0, sm_rank = 0, sm_world_size = 2,
      sm_buffers_dev = 8388608, sm_signal_pads_dev = 8388624\<rparr>"

section \<open>The allocator and its environment\<close>

subsection \<open>Calls to the driver, the operating system and the store\<close>

text \<open>
  Every call the file makes to a collaborator outside it, with the arguments that
  matter: the CUDA driver and runtime, the caching allocator, the operating system and
  the coordination store. \<open>Launch_kernel\<close> is a kernel launch \<open><<<..>>>\<close> on the current
  stream, and \<open>Kernel_launch_check\<close> is the check of \<open>C10_CUDA_KERNEL_LAUNCH_CHECK\<close> (a
  macro defined outside this file) for an error that the launch left.
\<close>

type_synonym key = string

datatype event =
    Get_allocation_granularity c_int
  | Mem_create size_t c_int
  | Mem_address_reserve size_t
  | Mem_map ptr size_t handle_type
  | Mem_set_access ptr size_t c_int
  | Device_guard c_int
  | Memset ptr size_t
  | Mem_unmap ptr size_t
  | Mem_release handle_type
  | Export_to_shareable_handle handle_type
  | Getpid
  | Pidfd_open c_int
  | Pidfd_getfd c_int c_int
  | Import_from_shareable_handle c_int
  | Close c_int
  | Store_set key "byte list"
  | Store_wait key
  | Store_get key
  | Raw_alloc size_t
  | Memcpy_host_to_device ptr "ptr list"
  | Device_synchronize
  | Raw_delete ptr
  | Launch_kernel launch
  | Kernel_launch_check

text \<open>
  \<open>get_group_info\<close> resolves a group name to the rank and world size (and the store,
  which is not told apart here: every store call goes to the one environment).
\<close>

record group_info =
  gi_rank :: c_int
  gi_world_size :: c_int

text \<open>
  The environment answers every call, given the calls made so far: the status a checked
  call returns (0 is success), the 64-bit value it yields (a granularity, a handle, an
  address), the \<open>int\<close> it yields (a descriptor, a process id), the bytes a
  \<open>store->get\<close> yields, the bytes that the padding of an object holds when its
  object representation is read (they are indeterminate), whether a \<open>store->wait\<close>
  returns, whether the process is finalizing, and the group table.
\<close>

record env =
  env_status :: "event list \<Rightarrow> event \<Rightarrow> nat"
  env_value64 :: "event list \<Rightarrow> event \<Rightarrow> 64 word"
  env_value32 :: "event list \<Rightarrow> event \<Rightarrow> 32 word"
  env_bytes :: "event list \<Rightarrow> event \<Rightarrow> byte list"
  env_padding :: "event list \<Rightarrow> nat \<Rightarrow> byte"
  env_wait_returns :: "event list \<Rightarrow> event \<Rightarrow> bool"
  is_finalizing :: "event list \<Rightarrow> bool"
  get_group_info :: "string \<Rightarrow> group_info"

subsection \<open>State\<close>

text \<open>
  \<open>Block\<close>, declared in the header of this file (not among the sources), as \<open>alloc\<close>
  constructs it and the other functions read it; \<open>symm_mem\<close> is the owning reference to
  the symmetric memory object, \<open>None\<close> for \<open>nullptr\<close>.
\<close>

record block =
  handle :: handle_type
  device_idx :: c_int
  block_size :: size_t
  buffer_size :: size_t
  signal_pad_offset :: size_t
  group_name :: string
  symm_mem :: "nat option"

text \<open>
  The state of the process: the registry \<open>ptr_to_block_\<close> of the allocator, the global
  \<open>store_comm_seq_id\<close>, the symmetric memory objects alive with the number of
  \<open>intrusive_ptr\<close> references to each, and the calls made so far.
\<close>

record state =
  ptr_to_block :: "ptr \<rightharpoonup> block"
  store_comm_seq_id :: size_t
  symm_objects :: "nat \<rightharpoonup> symmetric_memory"
  refcount :: "nat \<Rightarrow> nat"
  next_object :: nat
  trace :: "event list"

text \<open>
  A function that can throw and that changes the state: the state it leaves is
  returned on both paths, since what was done before a throw stays done.
\<close>

type_synonym 'a action = "state \<Rightarrow> (error + 'a) \<times> state"

definition succeed :: "'a \<Rightarrow> 'a action" where
  "succeed x s = (Inr x, s)"

definition fail :: "error \<Rightarrow> 'a action" where
  "fail e s = (Inl e, s)"

definition and_then :: "'a action \<Rightarrow> ('a \<Rightarrow> 'b action) \<Rightarrow> 'b action" where
  "and_then m f s = (case m s of (Inl e, s') \<Rightarrow> (Inl e, s') | (Inr x, s') \<Rightarrow> f x s')"

definition lift :: "error + 'a \<Rightarrow> 'a action" where
  "lift r s = (r, s)"

text \<open>
  A checked call (\<open>C10_CUDA_DRIVER_CHECK\<close>, \<open>AT_CUDA_CHECK\<close>, or a call that throws by
  itself) yielding a 64-bit value or an \<open>int\<close>, and an unchecked call (\<open>syscall\<close>,
  \<open>getpid\<close>, \<open>close\<close>, \<open>raw_delete\<close>, \<open>store->set\<close>, a kernel launch).
\<close>

definition driver_call :: "env \<Rightarrow> event \<Rightarrow> 64 word action" where
  "driver_call env e s =
     (if env_status env (trace s) e = 0
      then (Inr (env_value64 env (trace s) e), s\<lparr>trace := trace s @ [e]\<rparr>)
      else (Inl (Driver_error (env_status env (trace s) e)), s\<lparr>trace := trace s @ [e]\<rparr>))"

definition driver_call32 :: "env \<Rightarrow> event \<Rightarrow> c_int action" where
  "driver_call32 env e s =
     (if env_status env (trace s) e = 0
      then (Inr (env_value32 env (trace s) e), s\<lparr>trace := trace s @ [e]\<rparr>)
      else (Inl (Driver_error (env_status env (trace s) e)), s\<lparr>trace := trace s @ [e]\<rparr>))"

definition system_call :: "env \<Rightarrow> event \<Rightarrow> c_int action" where
  "system_call env e s = (Inr (env_value32 env (trace s) e), s\<lparr>trace := trace s @ [e]\<rparr>)"

subsection \<open>The host entry points of the signals\<close>

text \<open>
  \<open>barrier(channel)\<close>, \<open>put_signal(dst_rank, channel)\<close> and
  \<open>wait_signal(src_rank, channel)\<close>: \<open>check_channel\<close>, a \<open>CUDAGuard\<close> on the local
  device, the launch, and \<open>C10_CUDA_KERNEL_LAUNCH_CHECK\<close>. The guard and the launch check
  throw when the runtime reports an error; the launch itself returns nothing.
\<close>

definition barrier :: "env \<Rightarrow> symmetric_memory \<Rightarrow> c_int \<Rightarrow> unit action" where
  "barrier env sm channel =
     and_then (lift (check_channel channel (sm_world_size sm))) (\<lambda>_.
     and_then (driver_call env (Device_guard (sm_local_device_idx sm))) (\<lambda>_.
     and_then (system_call env
        (Launch_kernel
           (Launch_barrier (sm_signal_pads sm) channel (sm_rank sm) (sm_world_size sm)))) (\<lambda>_.
     and_then (driver_call env Kernel_launch_check) (\<lambda>_.
     succeed ()))))"

definition put_signal :: "env \<Rightarrow> symmetric_memory \<Rightarrow> c_int \<Rightarrow> c_int \<Rightarrow> unit action" where
  "put_signal env sm dst_rank channel =
     and_then (lift (check_channel channel (sm_world_size sm))) (\<lambda>_.
     and_then (driver_call env (Device_guard (sm_local_device_idx sm))) (\<lambda>_.
     and_then (system_call env
        (Launch_kernel
           (Launch_put_signal (sm_signal_pads sm) dst_rank channel (sm_rank sm)
              (sm_world_size sm)))) (\<lambda>_.
     and_then (driver_call env Kernel_launch_check) (\<lambda>_.
     succeed ()))))"

definition wait_signal :: "env \<Rightarrow> symmetric_memory \<Rightarrow> c_int \<Rightarrow> c_int \<Rightarrow> unit action" where
  "wait_signal env sm src_rank channel =
     and_then (lift (check_channel channel (sm_world_size sm))) (\<lambda>_.
     and_then (driver_call env (Device_guard (sm_local_device_idx sm))) (\<lambda>_.
     and_then (system_call env
        (Launch_kernel
           (Launch_wait_signal (sm_signal_pads sm) src_rank channel (sm_rank sm)
              (sm_world_size sm)))) (\<lambda>_.
     and_then (driver_call env Kernel_launch_check) (\<lambda>_.
     succeed ()))))"

text \<open>
  The kernels launched among some calls, in the order of the launches, and what they
  have caused once they have run: for each launch, the operations of each of the
  \<open>C10_WARP_SIZE\<close> threads, in thread order.
\<close>

definition launches :: "event list \<Rightarrow> launch list" where
  "launches calls = concat (map (\<lambda>e. case e of Launch_kernel l \<Rightarrow> [l] | _ \<Rightarrow> []) calls)"

definition on_device :: "event list \<Rightarrow> (error + signal_op list) list list" where
  "on_device calls = map run_launch (launches calls)"

subsection \<open>\<open>map_block\<close>\<close>

definition map_block :: "env \<Rightarrow> handle_type \<Rightarrow> size_t \<Rightarrow> c_int \<Rightarrow> ptr action" where
  "map_block env h sz dev =
     and_then (driver_call env (Mem_address_reserve sz)) (\<lambda>dev_ptr.
     and_then (driver_call env (Mem_map dev_ptr sz h)) (\<lambda>_.
     and_then (driver_call env (Mem_set_access dev_ptr sz dev)) (\<lambda>_.
     succeed dev_ptr)))"

subsection \<open>\<open>alloc\<close>, \<open>get_alloc_size\<close>, \<open>is_rendezvous_completed\<close>\<close>

text \<open>
  Modelled from the spec: \<open>at::round_up\<close> and \<open>at::ceil_div\<close> (ATen/ceil_div.h) are
  not among the sources. \<open>round_up(a, b)\<close> rounds \<open>a\<close> up to a multiple of \<open>b\<close>; it is
  \<open>ceil_div(a, b) * b\<close> with \<open>ceil_div(a, b) = (a + b - 1) / b\<close>, here in the unsigned
  arithmetic of \<open>size_t\<close>.
\<close>

definition ceil_div :: "size_t \<Rightarrow> size_t \<Rightarrow> size_t" where
  "ceil_div a b = (a + b - 1) div b"

definition round_up :: "size_t \<Rightarrow> size_t \<Rightarrow> size_t" where
  "round_up a b = ceil_div a b * b"

text \<open>\<open>std::unordered_map::emplace\<close> keeps the entry of a key that is present.\<close>

definition emplace :: "('k \<rightharpoonup> 'v) \<Rightarrow> 'k \<Rightarrow> 'v \<Rightarrow> ('k \<rightharpoonup> 'v)" where
  "emplace m k v = (case m k of None \<Rightarrow> m(k \<mapsto> v) | Some _ \<Rightarrow> m)"

definition find_block :: "state \<Rightarrow> ptr \<Rightarrow> block option" where
  "find_block s p = ptr_to_block s p"

text \<open>
  \<open>alloc(size, device_idx, group_name)\<close>, with \<open>sz\<close> for \<open>size\<close>. A granularity of 0 makes the division in
  \<open>round_up\<close> undefined.
\<close>

definition alloc :: "env \<Rightarrow> size_t \<Rightarrow> c_int \<Rightarrow> string \<Rightarrow> ptr action" where
  "alloc env sz dev grp =
     (let pad_offset = round_up sz 16;
          unrounded = pad_offset + signal_pad_size
      in
      and_then (driver_call env (Get_allocation_granularity dev)) (\<lambda>granularity.
      if granularity = 0 then fail (Undefined_behaviour Division_by_zero)
      else
        let rounded = round_up unrounded granularity in
        and_then (driver_call env (Mem_create rounded dev)) (\<lambda>h.
        and_then (map_block env h rounded dev) (\<lambda>p.
        and_then (driver_call env (Device_guard dev)) (\<lambda>_.
        and_then (driver_call env (Memset p rounded)) (\<lambda>_.
        (\<lambda>s. (Inr p,
               s\<lparr>ptr_to_block :=
                    emplace (ptr_to_block s) p
                      \<lparr>handle = h, device_idx = dev, block_size = rounded, buffer_size = sz,
                       signal_pad_offset = pad_offset, group_name = grp,
                       symm_mem = None\<rparr>\<rparr>))))))))"

definition get_alloc_size :: "state \<Rightarrow> ptr \<Rightarrow> error + size_t" where
  "get_alloc_size s p =
     (case find_block s p of
        None \<Rightarrow> Inl (Check_failed Get_alloc_size_unknown)
      | Some b \<Rightarrow> Inr (buffer_size b))"

definition is_rendezvous_completed :: "state \<Rightarrow> ptr \<Rightarrow> error + bool" where
  "is_rendezvous_completed s p =
     (case find_block s p of
        None \<Rightarrow> Inl (Check_failed Is_rendezvous_completed_unknown)
      | Some b \<Rightarrow> Inr (symm_mem b \<noteq> None))"

subsection \<open>The destructor and \<open>free\<close>\<close>

text \<open>A \<open>std::vector\<close> indexed by a loop counter that is not negative.\<close>

definition vector_at_nat :: "'a list \<Rightarrow> nat \<Rightarrow> error + 'a" where
  "vector_at_nat xs r =
     (if r < length xs then Inr (xs ! r) else Inl (Undefined_behaviour Index_out_of_range))"

text \<open>
  The loop of \<open>~CUDASymmetricMemory\<close> over \<open>r = 0, .., world_size_ - 1\<close>: unmap
  \<open>buffers_[r]\<close>, release \<open>handles_[r]\<close>.
\<close>

fun unmap_and_release :: "env \<Rightarrow> symmetric_memory \<Rightarrow> nat list \<Rightarrow> unit action" where
  "unmap_and_release env sm [] = succeed ()"
| "unmap_and_release env sm (r # rs) =
     and_then (lift (vector_at_nat (sm_buffers sm) r)) (\<lambda>b.
     and_then (driver_call env (Mem_unmap b (sm_block_size sm))) (\<lambda>_.
     and_then (lift (vector_at_nat (sm_handles sm) r)) (\<lambda>h.
     and_then (driver_call env (Mem_release h)) (\<lambda>_.
     unmap_and_release env sm rs))))"

text \<open>\<open>~CUDASymmetricMemory\<close>: nothing is released while the process is finalizing.\<close>

definition destroy_symmetric_memory :: "env \<Rightarrow> symmetric_memory \<Rightarrow> unit action" where
  "destroy_symmetric_memory env sm s =
     (if is_finalizing env (trace s) then (Inr (), s)
      else
        (and_then (driver_call env (Device_guard (sm_local_device_idx sm))) (\<lambda>_.
         and_then (driver_call env Device_synchronize) (\<lambda>_.
         and_then (unmap_and_release env sm [0..<nat (sint (sm_world_size sm))]) (\<lambda>_.
         and_then (system_call env (Raw_delete (sm_buffers_dev sm))) (\<lambda>_.
         and_then (system_call env (Raw_delete (sm_signal_pads_dev sm))) (\<lambda>_.
         succeed ())))))) s)"

text \<open>
  An \<open>intrusive_ptr\<close> to a symmetric memory object goes away: the object is destroyed
  when it was the last one.
\<close>

definition release_reference :: "env \<Rightarrow> nat \<Rightarrow> unit action" where
  "release_reference env obj s =
     (let n = refcount s obj - 1;
          s1 = s\<lparr>refcount := (refcount s)(obj := n)\<rparr>
      in
      if 0 < n then (Inr (), s1)
      else
        (case symm_objects s obj of
           None \<Rightarrow> (Inr (), s1)
         | Some sm \<Rightarrow>
             destroy_symmetric_memory env sm (s1\<lparr>symm_objects := (symm_objects s1)(obj := None)\<rparr>)))"

text \<open>
  \<open>free(ptr)\<close>. The last step is the end of the function, where the local reference
  \<open>block\<close> goes away: the registry entry is erased by then, so the \<open>Block\<close> is
  destroyed and its reference \<open>symm_mem\<close> is released.
\<close>

definition free :: "env \<Rightarrow> ptr \<Rightarrow> unit action" where
  "free env p s =
     (case find_block s p of
        None \<Rightarrow> (Inr (), s)
      | Some b \<Rightarrow>
          if is_finalizing env (trace s) then (Inr (), s)
          else
            (and_then
               (case symm_mem b of
                  None \<Rightarrow>
                    and_then (driver_call env (Mem_unmap p (block_size b))) (\<lambda>_.
                    and_then (driver_call env (Mem_release (handle b))) (\<lambda>_.
                    succeed ()))
                | Some _ \<Rightarrow> succeed ()) (\<lambda>_.
             and_then (\<lambda>s'. (Inr (), s'\<lparr>ptr_to_block := (ptr_to_block s')(p := None)\<rparr>)) (\<lambda>_.
             (case symm_mem b of
                None \<Rightarrow> succeed ()
              | Some obj \<Rightarrow> release_reference env obj)))) s)"

subsection \<open>The store rounds\<close>

text \<open>
  \<open>oss << n\<close> for an unsigned or non-negative integer: its decimal digits, most
  significant first.
\<close>

definition digit :: "nat \<Rightarrow> char" where
  "digit d = ''0123456789'' ! d"

function decimal :: "nat \<Rightarrow> string" where
  "decimal n = (if n < 10 then [digit n] else decimal (n div 10) @ [digit (n mod 10)])"
  by pat_completeness auto
termination
  by (relation "measure id") auto

declare decimal.simps [simp del]

text \<open>
  The key of rank \<open>r\<close> in the round numbered \<open>seq\<close>:
  \<open>oss << store_comm_prefix << "/" << store_comm_seq_id << "/" << r\<close>.
\<close>

definition peer_key :: "size_t \<Rightarrow> nat \<Rightarrow> key" where
  "peer_key seq r = store_comm_prefix @ ''/'' @ decimal (unat seq) @ ''/'' @ decimal r"

text \<open>
  A trivially copyable type \<open>T\<close> as \<open>store_all_gather\<close> uses it: \<open>sizeof(T)\<close>, the
  bytes of a value (its object representation, given the bytes that its padding holds,
  numbered from 0) and the value of \<open>sizeof(T)\<close> bytes (\<open>std::memcpy\<close> both ways).
\<close>

record 'a layout =
  size_of :: nat
  to_bytes :: "(nat \<Rightarrow> byte) \<Rightarrow> 'a \<Rightarrow> byte list"
  from_bytes :: "byte list \<Rightarrow> 'a"

text \<open>Little-endian bytes of a word, and back.\<close>

definition le_bytes :: "nat \<Rightarrow> 'a::len word \<Rightarrow> byte list" where
  "le_bytes n w = map (\<lambda>i. ucast (w div 256 ^ i)) [0..<n]"

definition of_le_bytes :: "byte list \<Rightarrow> 'a::len word" where
  "of_le_bytes bs = foldr (\<lambda>b acc. ucast b + 256 * acc) bs 0"

definition int_layout :: "c_int layout" where
  "int_layout = \<lparr>size_of = 4, to_bytes = (\<lambda>pad. le_bytes 4), from_bytes = of_le_bytes\<rparr>"

text \<open>
  \<open>RendezvousRequest\<close>: three \<open>int\<close>s, four bytes of padding, three \<open>size_t\<close>s: 40
  bytes. The padding bytes are published as they are and never read back.
\<close>

record rendezvous_request =
  req_device_idx :: c_int
  req_block_fd :: c_int
  req_pid :: c_int
  req_block_size :: size_t
  req_buffer_size :: size_t
  req_signal_pad_offset :: size_t

definition request_layout :: "rendezvous_request layout" where
  "request_layout =
     \<lparr>size_of = 40,
      to_bytes = (\<lambda>pad q. le_bytes 4 (req_device_idx q) @ le_bytes 4 (req_block_fd q)
                      @ le_bytes 4 (req_pid q) @ map pad [0..<4]
                      @ le_bytes 8 (req_block_size q) @ le_bytes 8 (req_buffer_size q)
                      @ le_bytes 8 (req_signal_pad_offset q)),
      from_bytes = (\<lambda>bs.
         \<lparr>req_device_idx = of_le_bytes (take 4 bs),
          req_block_fd = of_le_bytes (take 4 (drop 4 bs)),
          req_pid = of_le_bytes (take 4 (drop 8 bs)),
          req_block_size = of_le_bytes (take 8 (drop 16 bs)),
          req_buffer_size = of_le_bytes (take 8 (drop 24 bs)),
          req_signal_pad_offset = of_le_bytes (take 8 (drop 32 bs))\<rparr>)\<rparr>"

text \<open>\<open>store->wait({key})\<close> and \<open>store->get(key)\<close>.\<close>

definition store_wait :: "env \<Rightarrow> key \<Rightarrow> unit action" where
  "store_wait env k s =
     (if env_wait_returns env (trace s) (Store_wait k)
      then (Inr (), s\<lparr>trace := trace s @ [Store_wait k]\<rparr>)
      else (Inl Store_blocked, s\<lparr>trace := trace s @ [Store_wait k]\<rparr>))"

definition store_get :: "env \<Rightarrow> key \<Rightarrow> byte list action" where
  "store_get env k s = (Inr (env_bytes env (trace s) (Store_get k)), s\<lparr>trace := trace s @ [Store_get k]\<rparr>)"

text \<open>The second loop of \<open>store_all_gather\<close>, over \<open>r = 0, .., world_size - 1\<close>.\<close>

fun gather_peers ::
  "env \<Rightarrow> 'a layout \<Rightarrow> key list \<Rightarrow> c_int \<Rightarrow> 'a \<Rightarrow> nat list \<Rightarrow> 'a list action" where
  "gather_peers env T peer_keys rank val [] = succeed []"
| "gather_peers env T peer_keys rank val (r # rs) =
     (if int r = sint rank then
        and_then (gather_peers env T peer_keys rank val rs) (\<lambda>peer_vals.
        succeed (val # peer_vals))
      else
        and_then (lift (vector_at_nat peer_keys r)) (\<lambda>k.
        and_then (store_wait env k) (\<lambda>_.
        and_then (store_get env k) (\<lambda>payload.
        if length payload \<noteq> size_of T then fail (Check_failed Payload_size)
        else
          and_then (gather_peers env T peer_keys rank val rs) (\<lambda>peer_vals.
          succeed (from_bytes T payload # peer_vals))))))"

text \<open>
  \<open>store_all_gather(store, rank, world_size, val)\<close>: the keys of the round are built
  from the counter, the counter is incremented, the bytes of the own value are set under
  \<open>peer_keys[rank]\<close>, and the values of the others are collected.
\<close>

definition store_all_gather :: "env \<Rightarrow> 'a layout \<Rightarrow> c_int \<Rightarrow> c_int \<Rightarrow> 'a \<Rightarrow> 'a list action" where
  "store_all_gather env T rank world_size val s =
     (let peer_keys = map (peer_key (store_comm_seq_id s)) [0..<nat (sint world_size)];
          s1 = s\<lparr>store_comm_seq_id := store_comm_seq_id s + 1\<rparr>
      in
      (and_then (lift (vector_at peer_keys rank)) (\<lambda>k.
       and_then (system_call env (Store_set k (to_bytes T (env_padding env (trace s)) val))) (\<lambda>_.
       gather_peers env T peer_keys rank val [0..<nat (sint world_size)]))) s1)"

definition store_barrier :: "env \<Rightarrow> c_int \<Rightarrow> c_int \<Rightarrow> unit action" where
  "store_barrier env rank world_size =
     and_then (store_all_gather env int_layout rank world_size 0) (\<lambda>_. succeed ())"

subsection \<open>Rendezvous\<close>

text \<open>The loop of \<open>validate_rendezvous_requests\<close> over \<open>r = 1, .., world_size - 1\<close>.\<close>

fun requests_match :: "rendezvous_request list \<Rightarrow> nat list \<Rightarrow> error + unit" where
  "requests_match reqs [] = Inr ()"
| "requests_match reqs (r # rs) =
     (if req_block_size (reqs ! r) \<noteq> req_block_size (reqs ! 0)
        then Inl (Check_failed Block_size_mismatch)
      else if req_buffer_size (reqs ! r) \<noteq> req_buffer_size (reqs ! 0)
        then Inl (Check_failed Buffer_size_mismatch)
      else if req_signal_pad_offset (reqs ! r) \<noteq> req_signal_pad_offset (reqs ! 0)
        then Inl (Check_failed Signal_pad_offset_mismatch)
      else requests_match reqs rs)"

text \<open>
  \<open>validate_rendezvous_requests(reqs, world_size)\<close>. The loop runs only after
  \<open>reqs.size() == (size_t)world_size\<close> has held, so \<open>reqs[r]\<close> and \<open>reqs[0]\<close> are
  inside the vector there. \<open>device_indices\<close> is the set of the device indices.
\<close>

definition validate_rendezvous_requests :: "rendezvous_request list \<Rightarrow> c_int \<Rightarrow> error + unit" where
  "validate_rendezvous_requests reqs world_size =
     (if length reqs \<noteq> unat (scast world_size :: size_t) then Inl (Check_failed Request_count)
      else if card (set (map req_device_idx reqs)) < unat (scast world_size :: size_t)
        then Inl (Check_failed Overlapping_devices)
      else requests_match reqs [1..<nat (sint world_size)])"

definition import_remote_fd :: "env \<Rightarrow> c_int \<Rightarrow> c_int \<Rightarrow> c_int action" where
  "import_remote_fd env pid fd =
     and_then (system_call env (Pidfd_open pid)) (\<lambda>pidfd.
     system_call env (Pidfd_getfd pidfd fd))"

text \<open>
  The loop of \<open>rendezvous\<close> over the ranks; the result lists, rank by rank, the triple
  \<open>(handles[r], buffers[r], signal_pads[r])\<close>.
\<close>

fun import_peers ::
  "env \<Rightarrow> block \<Rightarrow> ptr \<Rightarrow> c_int \<Rightarrow> rendezvous_request list \<Rightarrow> nat list
     \<Rightarrow> (handle_type \<times> ptr \<times> ptr) list action" where
  "import_peers env b p rank reqs [] = succeed []"
| "import_peers env b p rank reqs (r # rs) =
     (if int r = sint rank then
        and_then (import_peers env b p rank reqs rs) (\<lambda>rest.
        succeed ((handle b, p, p + signal_pad_offset b) # rest))
      else
        and_then (lift (vector_at_nat reqs r)) (\<lambda>q.
        and_then (import_remote_fd env (req_pid q) (req_block_fd q)) (\<lambda>imported_fd.
        and_then (driver_call env (Import_from_shareable_handle imported_fd)) (\<lambda>h.
        and_then (map_block env h (block_size b) (device_idx b)) (\<lambda>buf.
        and_then (system_call env (Close imported_fd)) (\<lambda>_.
        and_then (import_peers env b p rank reqs rs) (\<lambda>rest.
        succeed ((h, buf, buf + signal_pad_offset b) # rest))))))))"

text \<open>The constructor \<open>CUDASymmetricMemory::CUDASymmetricMemory\<close>.\<close>

definition construct_symmetric_memory ::
  "env \<Rightarrow> handle_type list \<Rightarrow> size_t \<Rightarrow> ptr list \<Rightarrow> ptr list \<Rightarrow> size_t \<Rightarrow> c_int \<Rightarrow> c_int \<Rightarrow> c_int
     \<Rightarrow> symmetric_memory action" where
  "construct_symmetric_memory env handles bsize buffers signal_pads bufsize dev rank world_size =
     (let arr_size = 8 * (scast world_size :: size_t) in
      and_then (driver_call env (Raw_alloc arr_size)) (\<lambda>buffers_dev.
      and_then (driver_call env (Raw_alloc arr_size)) (\<lambda>signal_pads_dev.
      and_then (driver_call env (Device_guard dev)) (\<lambda>_.
      and_then (driver_call env (Memcpy_host_to_device buffers_dev buffers)) (\<lambda>_.
      and_then (driver_call env (Memcpy_host_to_device signal_pads_dev signal_pads)) (\<lambda>_.
      succeed
        \<lparr>sm_handles = handles, sm_block_size = bsize, sm_buffers = buffers,
         sm_signal_pads = signal_pads, sm_buffer_size = bufsize, sm_local_device_idx = dev,
         sm_rank = rank, sm_world_size = world_size, sm_buffers_dev = buffers_dev,
         sm_signal_pads_dev = signal_pads_dev\<rparr>))))))"

text \<open>
  The first part of \<open>rendezvous(ptr)\<close> for a block that has no symmetric memory yet:
  the handle is exported, the request is built and the requests of all ranks are
  gathered. The result is \<open>block_fd\<close> and \<open>reqs\<close>.
\<close>

definition gather_requests :: "env \<Rightarrow> block \<Rightarrow> (c_int \<times> rendezvous_request list) action" where
  "gather_requests env b =
     (let gi = get_group_info env (group_name b) in
      and_then (driver_call32 env (Export_to_shareable_handle (handle b))) (\<lambda>block_fd.
      and_then (system_call env Getpid) (\<lambda>pid.
      and_then (store_all_gather env request_layout (gi_rank gi) (gi_world_size gi)
                  \<lparr>req_device_idx = device_idx b, req_block_fd = block_fd, req_pid = pid,
                   req_block_size = block_size b, req_buffer_size = buffer_size b,
                   req_signal_pad_offset = signal_pad_offset b\<rparr>) (\<lambda>reqs.
      succeed (block_fd, reqs)))))"

text \<open>
  The rest of it, from the validation to the construction of the object.
\<close>

definition map_peers ::
  "env \<Rightarrow> ptr \<Rightarrow> block \<Rightarrow> c_int \<Rightarrow> rendezvous_request list \<Rightarrow> symmetric_memory action" where
  "map_peers env p b block_fd reqs =
     (let gi = get_group_info env (group_name b) in
      and_then (lift (validate_rendezvous_requests reqs (gi_world_size gi))) (\<lambda>_.
      and_then (import_peers env b p (gi_rank gi) reqs [0..<nat (sint (gi_world_size gi))])
        (\<lambda>mapped.
      and_then (store_barrier env (gi_rank gi) (gi_world_size gi)) (\<lambda>_.
      and_then (system_call env (Close block_fd)) (\<lambda>_.
      construct_symmetric_memory env (map fst mapped) (block_size b)
        (map (\<lambda>t. fst (snd t)) mapped) (map (\<lambda>t. snd (snd t)) mapped)
        (buffer_size b) (device_idx b) (gi_rank gi) (gi_world_size gi))))))"

definition rendezvous_exchange :: "env \<Rightarrow> ptr \<Rightarrow> block \<Rightarrow> symmetric_memory action" where
  "rendezvous_exchange env p b =
     and_then (gather_requests env b) (\<lambda>(block_fd, reqs). map_peers env p b block_fd reqs)"

text \<open>
  \<open>rendezvous(ptr)\<close>. The object made is stored on the block and returned: two
  references, the block's and the caller's. A cached object is returned as one more
  reference to it.
\<close>

definition rendezvous :: "env \<Rightarrow> ptr \<Rightarrow> nat action" where
  "rendezvous env p s =
     (case find_block s p of
        None \<Rightarrow> (Inl (Check_failed Rendezvous_unknown), s)
      | Some b \<Rightarrow>
          (case symm_mem b of
             Some obj \<Rightarrow> (Inr obj, s\<lparr>refcount := (refcount s)(obj := refcount s obj + 1)\<rparr>)
           | None \<Rightarrow>
               (case rendezvous_exchange env p b s of
                  (Inl e, s') \<Rightarrow> (Inl e, s')
                | (Inr sm, s') \<Rightarrow>
                    (Inr (next_object s'),
                     s'\<lparr>ptr_to_block := (ptr_to_block s')(p \<mapsto> b\<lparr>symm_mem := Some (next_object s')\<rparr>),
                        symm_objects := (symm_objects s')(next_object s' \<mapsto> sm),
                        refcount := (refcount s')(next_object s' := 2),
                        next_object := next_object s' + 1\<rparr>))))"

subsection \<open>Frames\<close>

text \<open>
  A state reached from another by calls only: the registry, the objects, their reference
  counts and the next object are unchanged (the round counter may have changed), and the
  calls made in between all satisfy \<open>P\<close>. An action makes calls only when every run of
  it does.
\<close>

definition extends_by :: "(event \<Rightarrow> bool) \<Rightarrow> state \<Rightarrow> state \<Rightarrow> bool" where
  "extends_by P s s' \<longleftrightarrow>
     ptr_to_block s' = ptr_to_block s \<and> symm_objects s' = symm_objects s
     \<and> refcount s' = refcount s \<and> next_object s' = next_object s
     \<and> (\<exists>new. trace s' = trace s @ new \<and> list_all P new)"

definition calls_only :: "(event \<Rightarrow> bool) \<Rightarrow> 'a action \<Rightarrow> bool" where
  "calls_only P m \<longleftrightarrow> (\<forall>s r s'. m s = (r, s') \<longrightarrow> extends_by P s s')"

text \<open>An action that throws only errors that satisfy \<open>Q\<close>.\<close>

definition fails_only :: "(error \<Rightarrow> bool) \<Rightarrow> 'a action \<Rightarrow> bool" where
  "fails_only Q m \<longleftrightarrow> (\<forall>s e s'. m s = (Inl e, s') \<longrightarrow> Q e)"

text \<open>The failures of the checks of \<open>validate_rendezvous_requests\<close>.\<close>

fun validation_error :: "error \<Rightarrow> bool" where
  "validation_error (Check_failed Request_count) = True"
| "validation_error (Check_failed Overlapping_devices) = True"
| "validation_error (Check_failed Block_size_mismatch) = True"
| "validation_error (Check_failed Buffer_size_mismatch) = True"
| "validation_error (Check_failed Signal_pad_offset_mismatch) = True"
| "validation_error _ = False"

text \<open>
  The store calls of one round after the own value is set, when no call fails: for each
  other rank in rank order, a wait on its key and a read of it.
\<close>

definition peer_reads :: "size_t \<Rightarrow> c_int \<Rightarrow> nat list \<Rightarrow> event list" where
  "peer_reads seq rank rs =
     concat (map (\<lambda>r. if int r = sint rank then []
                         else [Store_wait (peer_key seq r), Store_get (peer_key seq r)]) rs)"

text \<open>The value of a digit and of a string of decimal digits.\<close>

definition digit_value :: "char \<Rightarrow> nat" where
  "digit_value c = length (takeWhile (\<lambda>x. x \<noteq> c) ''0123456789'')"

definition of_decimal :: "string \<Rightarrow> nat" where
  "of_decimal cs = foldl (\<lambda>acc c. 10 * acc + digit_value c) 0 cs"

text \<open>
  The round that a key names: the number between its two slashes.
\<close>

definition key_round :: "key \<Rightarrow> nat" where
  "key_round k =
     of_decimal (takeWhile (\<lambda>c. c \<noteq> CHR ''/'') (drop (Suc (length store_comm_prefix)) k))"

text \<open>
  The store rounds among some calls, the latest first, each as the keys that it used, the
  latest first: a \<open>store->set\<close> begins a round, and a \<open>store->wait\<close> or a
  \<open>store->get\<close> uses its key in the round begun last.
\<close>

definition record_call :: "key list list \<Rightarrow> event \<Rightarrow> key list list" where
  "record_call rs e =
     (case e of
        Store_set k _ \<Rightarrow> [k] # rs
      | Store_wait k \<Rightarrow> (case rs of [] \<Rightarrow> [] | r # rest \<Rightarrow> (k # r) # rest)
      | Store_get k \<Rightarrow> (case rs of [] \<Rightarrow> [] | r # rest \<Rightarrow> (k # r) # rest)
      | _ \<Rightarrow> rs)"

definition rounds :: "event list \<Rightarrow> key list list" where
  "rounds calls = foldl record_call [] calls"

text \<open>
  The number of a round is the one that the key it set names. The rounds of a state are
  numbered when every key of a round names the number of the round, the numbers grow
  strictly from each round to the next, and all are below the counter.
\<close>

definition round_number :: "key list \<Rightarrow> nat" where
  "round_number r = key_round (last r)"

definition rounds_numbered :: "state \<Rightarrow> bool" where
  "rounds_numbered s \<longleftrightarrow>
     list_all (\<lambda>r. list_all (\<lambda>k. key_round k = round_number r) r) (rounds (trace s))
     \<and> sorted_wrt (\<lambda>a b. b < a) (map round_number (rounds (trace s)))
     \<and> list_all (\<lambda>r. round_number r < unat (store_comm_seq_id s)) (rounds (trace s))"

text \<open>
  An action that increments the counter at most \<open>n\<close> times, and that keeps the rounds
  numbered when the counter does not wrap around.
\<close>

definition advances :: "nat \<Rightarrow> 'a action \<Rightarrow> bool" where
  "advances n m \<longleftrightarrow>
     (\<forall>s r s'. m s = (r, s') \<longrightarrow>
        (\<exists>j\<le>n. store_comm_seq_id s' = store_comm_seq_id s + of_nat j)
        \<and> (rounds_numbered s \<and> unat (store_comm_seq_id s) + n < 2 ^ 64
             \<longrightarrow> rounds_numbered s'))"

subsection \<open>Sequences of calls to the allocator\<close>

text \<open>
  What a caller can do, in any order: allocate, free, rendezvous, and drop a reference to
  a symmetric memory object it was given. A call that throws leaves the state it had
  reached, and the caller goes on from there.
\<close>

datatype operation =
    Alloc size_t c_int string
  | Free ptr
  | Rendezvous ptr
  | Drop_reference nat

fun step :: "env \<Rightarrow> operation \<Rightarrow> state \<Rightarrow> state" where
  "step env (Alloc sz dev grp) s = snd (alloc env sz dev grp s)"
| "step env (Free p) s = snd (free env p s)"
| "step env (Rendezvous p) s = snd (rendezvous env p s)"
| "step env (Drop_reference obj) s = snd (release_reference env obj s)"

fun run :: "env \<Rightarrow> operation list \<Rightarrow> state \<Rightarrow> state" where
  "run env [] s = s"
| "run env (x # xs) s = run env xs (step env x s)"

text \<open>The pointer is in the registry after each of the operations.\<close>

fun present_throughout :: "env \<Rightarrow> ptr \<Rightarrow> operation list \<Rightarrow> state \<Rightarrow> bool" where
  "present_throughout env p [] s = True"
| "present_throughout env p (x # xs) s =
     (ptr_to_block (step env x s) p \<noteq> None \<and> present_throughout env p xs (step env x s))"

text \<open>
  The invariants of a block, on natural numbers: the pad offset is the payload size
  rounded up to a multiple of 16, and the block holds the payload and the pad.
\<close>

definition block_ok :: "block \<Rightarrow> bool" where
  "block_ok b \<longleftrightarrow>
     16 dvd unat (signal_pad_offset b)
     \<and> unat (buffer_size b) \<le> unat (signal_pad_offset b)
     \<and> unat (signal_pad_offset b) < unat (buffer_size b) + 16
     \<and> unat (buffer_size b) + unat signal_pad_size \<le> unat (block_size b)"

definition registry_ok :: "state \<Rightarrow> bool" where
  "registry_ok s \<longleftrightarrow> (\<forall>p b. ptr_to_block s p = Some b \<longrightarrow> block_ok b)"

subsection \<open>Reading the calls made\<close>

text \<open>The calls made between two states of one run.\<close>

definition calls_since :: "state \<Rightarrow> state \<Rightarrow> event list" where
  "calls_since s s' = drop (length (trace s)) (trace s')"

text \<open>
  The calls that import a remote handle or map memory: the two system calls of
  \<open>import_remote_fd\<close>, the import of the handle and the three calls of \<open>map_block\<close>.
\<close>

fun imports_or_maps :: "event \<Rightarrow> bool" where
  "imports_or_maps (Pidfd_open _) = True"
| "imports_or_maps (Pidfd_getfd _ _) = True"
| "imports_or_maps (Import_from_shareable_handle _) = True"
| "imports_or_maps (Mem_address_reserve _) = True"
| "imports_or_maps (Mem_map _ _ _) = True"
| "imports_or_maps (Mem_set_access _ _ _) = True"
| "imports_or_maps _ = False"

fun unmaps_or_releases :: "event \<Rightarrow> bool" where
  "unmaps_or_releases (Mem_unmap _ _) = True"
| "unmaps_or_releases (Mem_release _) = True"
| "unmaps_or_releases _ = False"

text \<open>
  The checked calls of \<open>~CUDASymmetricMemory\<close> in the order it makes them when none
  fails: the device guard, the synchronization, and for each rank the unmapping of its
  buffer and the release of its handle. The two \<open>raw_delete\<close> that follow are not
  checked.
\<close>

definition unmap_release_calls :: "symmetric_memory \<Rightarrow> nat list \<Rightarrow> event list" where
  "unmap_release_calls sm rs =
     concat (map (\<lambda>r. [Mem_unmap (sm_buffers sm ! r) (sm_block_size sm),
                        Mem_release (sm_handles sm ! r)]) rs)"

definition destructor_checked_calls :: "symmetric_memory \<Rightarrow> event list" where
  "destructor_checked_calls sm =
     [Device_guard (sm_local_device_idx sm), Device_synchronize]
     @ unmap_release_calls sm [0..<nat (sint (sm_world_size sm))]"

text \<open>
  The environment reports success for each of some calls, made one after the other
  after the calls \<open>h\<close>.
\<close>

fun all_succeed :: "env \<Rightarrow> event list \<Rightarrow> event list \<Rightarrow> bool" where
  "all_succeed env h [] = True"
| "all_succeed env h (e # es) = (env_status env h e = 0 \<and> all_succeed env (h @ [e]) es)"

subsection \<open>An example run\<close>

text \<open>
  An environment in which every call succeeds: the granularity is 2 MiB, every other
  64-bit value (handles, addresses) is a fresh multiple of 2 MiB, descriptors and process
  ids are fresh, and the process is rank 0 of a group of two. The peer, rank 1, publishes
  a request for a block of the same sizes on device 1, with padding bytes of 255, and
  then the \<open>int\<close> 0 of the store barrier. The padding bytes of the local objects are
  204.
\<close>

fun is_store_get :: "event \<Rightarrow> bool" where
  "is_store_get (Store_get _) = True"
| "is_store_get _ = False"

definition example_peer_request :: rendezvous_request where
  "example_peer_request =
     \<lparr>req_device_idx = 1, req_block_fd = 9, req_pid = 4242, req_block_size = 2097152,
      req_buffer_size = 4096, req_signal_pad_offset = 4096\<rparr>"

definition example_env :: env where
  "example_env =
     \<lparr>env_status = (\<lambda>h e. 0),
      env_value64 = (\<lambda>h e. case e of Get_allocation_granularity _ \<Rightarrow> 2097152
                              | _ \<Rightarrow> 2097152 + 2097152 * of_nat (length h)),
      env_value32 = (\<lambda>h e. 3 + of_nat (length h)),
      env_bytes = (\<lambda>h e. if list_ex is_store_get h then le_bytes 4 (0 :: c_int)
                           else to_bytes request_layout (\<lambda>i. 255) example_peer_request),
      env_padding = (\<lambda>h i. 204),
      env_wait_returns = (\<lambda>h e. True),
      is_finalizing = (\<lambda>h. False),
      get_group_info = (\<lambda>g. \<lparr>gi_rank = 0, gi_world_size = 2\<rparr>)\<rparr>"

definition initial_state :: state where
  "initial_state =
     \<lparr>ptr_to_block = Map.empty, store_comm_seq_id = 0, symm_objects = Map.empty,
      refcount = (\<lambda>_. 0), next_object = 0, trace = []\<rparr>"

text \<open>
  The states of the example: after \<open>alloc(4096, 0, "g")\<close> from the initial state, and
  after \<open>rendezvous\<close> on the pointer it returned.
\<close>

definition example_block :: block where
  "example_block =
     \<lparr>handle = 4194304, device_idx = 0, block_size = 2097152, buffer_size = 4096,
      signal_pad_offset = 4096, group_name = ''g'', symm_mem = None\<rparr>"

definition example_allocated :: state where
  "example_allocated =
     \<lparr>ptr_to_block = [6291456 \<mapsto> example_block],
      store_comm_seq_id = 0, symm_objects = Map.empty, refcount = (\<lambda>_. 0), next_object = 0,
      trace =
        [Get_allocation_granularity 0, Mem_create 2097152 0, Mem_address_reserve 2097152,
         Mem_map 6291456 2097152 4194304, Mem_set_access 6291456 2097152 0, Device_guard 0,
         Memset 6291456 2097152]\<rparr>"

definition example_object :: symmetric_memory where
  "example_object =
     \<lparr>sm_handles = [4194304, 31457280], sm_block_size = 2097152,
      sm_buffers = [6291456, 33554432], sm_signal_pads = [6295552, 33558528],
      sm_buffer_size = 4096, sm_local_device_idx = 0, sm_rank = 0,
      sm_world_size = 2, sm_buffers_dev = 50331648,
      sm_signal_pads_dev = 52428800\<rparr>"

definition example_rendezvoused :: state where
  "example_rendezvoused =
     \<lparr>ptr_to_block = [6291456 \<mapsto> example_block\<lparr>symm_mem := Some 0\<rparr>],
      store_comm_seq_id = 2, symm_objects = [0 \<mapsto> example_object],
      refcount = (\<lambda>_. 0)(0 := 2), next_object = 1,
      trace =
        [Get_allocation_granularity 0, Mem_create 2097152 0, Mem_address_reserve 2097152,
         Mem_map 6291456 2097152 4194304, Mem_set_access 6291456 2097152 0, Device_guard 0,
         Memset 6291456 2097152,
         Export_to_shareable_handle 4194304, Getpid,
         Store_set ''CUDASymmetricMemory/0/0''
           [0, 0, 0, 0, 10, 0, 0, 0, 11, 0, 0, 0, 204, 204, 204, 204, 0, 0, 32, 0, 0, 0, 0,
            0, 0, 16, 0, 0, 0, 0, 0, 0, 0, 16, 0, 0, 0, 0, 0, 0],
         Store_wait ''CUDASymmetricMemory/0/1'', Store_get ''CUDASymmetricMemory/0/1'',
         Pidfd_open 4242, Pidfd_getfd 15 9, Import_from_shareable_handle 16,
         Mem_address_reserve 2097152, Mem_map 33554432 2097152 31457280,
         Mem_set_access 33554432 2097152 0, Close 16,
         Store_set ''CUDASymmetricMemory/1/0'' [0, 0, 0, 0],
         Store_wait ''CUDASymmetricMemory/1/1'', Store_get ''CUDASymmetricMemory/1/1'',
         Close 10, Raw_alloc 16, Raw_alloc 16, Device_guard 0,
         Memcpy_host_to_device 50331648 [6291456, 33554432],
         Memcpy_host_to_device 52428800 [6295552, 33558528]]\<rparr>"

text \<open>
  The same run with a peer that publishes a request for 8192 bytes of payload: the
  environment, the request of the local rank, and the state after the requests are
  gathered.
\<close>

definition example_mismatched_env :: env where
  "example_mismatched_env =
     example_env\<lparr>env_bytes := (\<lambda>h e. to_bytes request_layout (\<lambda>i. 255)
                                      (example_peer_request\<lparr>req_buffer_size := 8192\<rparr>))\<rparr>"

definition example_local_request :: rendezvous_request where
  "example_local_request =
     \<lparr>req_device_idx = 0, req_block_fd = 10, req_pid = 11, req_block_size = 2097152,
      req_buffer_size = 4096, req_signal_pad_offset = 4096\<rparr>"

definition example_gathered :: state where
  "example_gathered =
     example_allocated
       \<lparr>store_comm_seq_id := 1,
         trace := trace example_allocated @
           [Export_to_shareable_handle 4194304, Getpid,
            Store_set ''CUDASymmetricMemory/0/0''
              [0, 0, 0, 0, 10, 0, 0, 0, 11, 0, 0, 0, 204, 204, 204, 204, 0, 0, 32, 0, 0, 0, 0,
               0, 0, 16, 0, 0, 0, 0, 0, 0, 0, 16, 0, 0, 0, 0, 0, 0],
            Store_wait ''CUDASymmetricMemory/0/1'', Store_get ''CUDASymmetricMemory/0/1'']\<rparr>"

section \<open>Properties of the channel check\<close>

lemma scast_nonneg_unat:
  assumes "0 \<le> sint (c :: c_int)"
  shows "unat (scast c :: size_t) = nat (sint c)"
proof -
  have "sint c < 2 ^ 31"
    using sint_lt [of c] by simp
  then have b: "nat (sint c) < 2 ^ 64"
    using assms by simp
  have "(scast c :: size_t) = of_nat (nat (sint c))"
    using assms by simp
  then show ?thesis
    using b by (simp add: unat_of_nat)
qed

lemma num_channels_unat:
  assumes "0 \<le> sint world_size"
  shows "unat (num_channels world_size) = 512 * nat (sint world_size)"
proof -
  have "sint world_size < 2 ^ 31"
    using sint_lt [of world_size] by simp
  then have b: "512 * nat (sint world_size) < 2 ^ 64"
    using assms by simp
  have e: "signal_pad_size div sizeof_uint32 = (512 :: size_t)"
    by (simp add: signal_pad_size_def sizeof_uint32_def)
  show ?thesis
    using b by (simp add: num_channels_def e unat_word_ariths scast_nonneg_unat [OF assms])
qed

lemma check_channel_accepts_iff:
  assumes "1 \<le> sint world_size"
  shows "check_channel channel world_size = Inr ()
           \<longleftrightarrow> 0 \<le> sint channel \<and> sint channel < 512 * sint world_size"
proof (cases "0 \<le> sint channel")
  case False
  then show ?thesis by (simp add: check_channel_def)
next
  case True
  have w: "0 \<le> sint world_size" using assms by simp
  have "(scast channel :: size_t) < num_channels world_size
          \<longleftrightarrow> nat (sint channel) < 512 * nat (sint world_size)"
    by (simp add: word_less_nat_alt num_channels_unat [OF w] scast_nonneg_unat [OF True])
  also have "\<dots> \<longleftrightarrow> sint channel < 512 * sint world_size"
    using True w by (simp add: nat_less_iff)
  finally show ?thesis
    using True by (simp add: check_channel_def)
qed

text \<open>
  C1. The claim: for every world size \<open>W \<ge> 1\<close>, \<open>check_channel\<close> accepts exactly the
  channels \<open>0 \<le> c < 2048 / 4 / W\<close>. The code multiplies by the world size where the
  claim divides: with world size 2 the channel count of the claim is 256, and the code
  accepts channel 256 and every channel up to 1023. The slot that \<open>put_signal_kernel\<close>
  then addresses for channel 256 lies 2048 bytes after the pad base, which is the first
  byte after the pad.
\<close>

theorem check_channel_accepts_beyond_channel_count:
  "check_channel 256 2 = Inr () \<and> spec_channel_count 2 = 256
     \<and> check_channel 1023 2 = Inr ()
     \<and> check_channel 1024 2 = Inl (Check_failed Channel_too_large)
     \<and> slot_address [4096, 8192] 1 2 256 0 = Inr (8192 + 2048)
     \<and> signal_pad_size = 2048"
  by (simp add: check_channel_def num_channels_def signal_pad_size_def sizeof_uint32_def
      spec_channel_count_def slot_address_def vector_at_def)

section \<open>Signal slots\<close>

lemma sint_mult_in_range:
  assumes "- (2 ^ 31) \<le> sint (a :: c_int) * sint b" "sint a * sint b < 2 ^ 31"
  shows "sint (a * b) = sint a * sint b"
  using assms by (simp add: sint_word_mult signed_take_bit_int_eq_self)

lemma vector_at_in_range:
  assumes "0 \<le> sint r" "nat (sint r) < length xs"
  shows "vector_at xs r = Inr (xs ! nat (sint r))"
  using assms by (simp add: vector_at_def scast_nonneg_unat)

lemma slot_address_spec:
  assumes "0 \<le> sint r" "nat (sint r) < length pads"
    and "- (2 ^ 31) \<le> sint W * sint c" "sint W * sint c < 2 ^ 31"
  shows "slot_address pads r W c k
           = Inr (pads ! nat (sint r) + of_int (spec_slot_offset (sint W) (sint k) (sint c)))"
proof -
  have "(scast (W * c) :: size_t) = of_int (sint (W * c))"
    by (rule scast_eq)
  then have a: "(scast (W * c) :: size_t) = of_int (sint W) * of_int (sint c)"
    by (simp only: sint_mult_in_range [OF assms(3,4)] of_int_mult)
  have b: "(scast k :: size_t) = of_int (sint k)"
    by (rule scast_eq)
  have "slot_address pads r W c k = Inr (pads ! nat (sint r) + 4 * scast (W * c) + 4 * scast k)"
    using assms by (simp add: slot_address_def vector_at_in_range)
  also have "pads ! nat (sint r) + 4 * scast (W * c) + 4 * scast k
     =  pads ! nat (sint r) + of_int (spec_slot_offset (sint W) (sint k) (sint c))"
    unfolding a b spec_slot_offset_def by (simp add: algebra_simps)
  finally show ?thesis .
qed

lemma map_constant:
  "(\<And>x. x \<in> set xs \<Longrightarrow> f x = c) \<Longrightarrow> map f xs = replicate (length xs) c"
  by (induction xs) auto

lemma warp_threads: "[0..<C10_WARP_SIZE] = 0 # [1..<32]"
  by (simp add: C10_WARP_SIZE_def upt_conv_Cons)

lemma run_put_signal:
  "run_launch (Launch_put_signal pads d c k W)
     = (case slot_address pads d W c k of Inl e \<Rightarrow> Inl e | Inr a \<Rightarrow> Inr [Release_signal a])
       # replicate 31 (Inr [])"
proof -
  have "map (run_thread (Launch_put_signal pads d c k W)) [1..<32] = replicate (length [1..<32]) (Inr [])"
    by (rule map_constant) (simp add: put_signal_kernel_def)
  then show ?thesis
    by (simp add: run_launch_def warp_threads put_signal_kernel_def)
qed

lemma run_wait_signal:
  "run_launch (Launch_wait_signal pads src c k W)
     = (case slot_address pads k W c src of Inl e \<Rightarrow> Inl e
        | Inr a \<Rightarrow> Inr [Acquire_signal a, Threadfence_system])
       # replicate 31 (Inr [Threadfence_system])"
proof -
  have "map (run_thread (Launch_wait_signal pads src c k W)) [1..<32]
          = replicate (length [1..<32]) (Inr [Threadfence_system])"
    by (rule map_constant) (simp add: wait_signal_kernel_def)
  then show ?thesis
    by (simp add: run_launch_def warp_threads wait_signal_kernel_def)
qed

lemma host_calls:
  assumes "check_channel c (sm_world_size sm) = Inr ()"
  shows "calls_since s (snd (put_signal env sm r c s))
       = (if env_status env (trace s) (Device_guard (sm_local_device_idx sm)) = 0
          then [Device_guard (sm_local_device_idx sm),
                Launch_kernel
                  (Launch_put_signal (sm_signal_pads sm) r c (sm_rank sm) (sm_world_size sm)),
                Kernel_launch_check]
          else [Device_guard (sm_local_device_idx sm)])"
    and "calls_since s (snd (wait_signal env sm r c s))
       = (if env_status env (trace s) (Device_guard (sm_local_device_idx sm)) = 0
          then [Device_guard (sm_local_device_idx sm),
                Launch_kernel
                  (Launch_wait_signal (sm_signal_pads sm) r c (sm_rank sm) (sm_world_size sm)),
                Kernel_launch_check]
          else [Device_guard (sm_local_device_idx sm)])"
    and "calls_since s (snd (barrier env sm c s))
       = (if env_status env (trace s) (Device_guard (sm_local_device_idx sm)) = 0
          then [Device_guard (sm_local_device_idx sm),
                Launch_kernel
                  (Launch_barrier (sm_signal_pads sm) c (sm_rank sm) (sm_world_size sm)),
                Kernel_launch_check]
          else [Device_guard (sm_local_device_idx sm)])"
  using assms
  by (simp_all add: put_signal_def wait_signal_def barrier_def and_then_def lift_def
      driver_call_def system_call_def succeed_def calls_since_def)

lemma host_check_failures:
  "fst (put_signal env sm r c s) = Inl (Check_failed k)
     \<longleftrightarrow> check_channel c (sm_world_size sm) = Inl (Check_failed k)"
  "fst (wait_signal env sm r c s) = Inl (Check_failed k)
     \<longleftrightarrow> check_channel c (sm_world_size sm) = Inl (Check_failed k)"
  "fst (barrier env sm c s) = Inl (Check_failed k)
     \<longleftrightarrow> check_channel c (sm_world_size sm) = Inl (Check_failed k)"
  by (cases "check_channel c (sm_world_size sm)";
      simp add: put_signal_def wait_signal_def barrier_def and_then_def lift_def
        driver_call_def system_call_def succeed_def)+

lemma host_other_failures:
  assumes "fst (put_signal env sm r c s) = Inl e \<or> fst (wait_signal env sm r c s) = Inl e
        \<or> fst (barrier env sm c s) = Inl e"
  shows "check_channel c (sm_world_size sm) = Inl e \<or> (\<exists>n. e = Driver_error n)"
  using assms
  by (cases "check_channel c (sm_world_size sm)")
    (auto simp: put_signal_def wait_signal_def barrier_def and_then_def lift_def
      driver_call_def system_call_def succeed_def split: if_splits)

text \<open>
  C8. Slot \<open>(dst, c)\<close> of a pad lies \<open>c * W * 4 + dst * 4\<close> bytes after the pad base.
  In a group of \<open>W\<close> ranks, for a channel that \<open>check_channel\<close> accepts,
  \<open>put_signal(peer, c)\<close> makes exactly one thread release exactly the slot of the local
  rank in the pad of \<open>peer\<close>, and \<open>wait_signal(peer, c)\<close> makes exactly one thread
  acquire exactly the slot of \<open>peer\<close> in the local rank's own pad; the other threads
  touch no slot. The one kernel is launched whenever the device guard before the launch
  succeeds, whatever the launch check reports afterwards; no kernel is launched
  otherwise.
\<close>

theorem signal_slot_addressing:
  assumes ok: "check_channel c (sm_world_size sm) = Inr ()"
    and table: "length (sm_signal_pads sm) = nat (sint (sm_world_size sm))"
    and rank: "0 \<le> sint (sm_rank sm)" "sint (sm_rank sm) < sint (sm_world_size sm)"
    and peer: "0 \<le> sint peer" "sint peer < sint (sm_world_size sm)"
    and fits: "sint (sm_world_size sm) * sint c < 2 ^ 31"
  shows "on_device (calls_since s (snd (put_signal env sm peer c s)))
           = (if env_status env (trace s) (Device_guard (sm_local_device_idx sm)) = 0
              then [Inr [Release_signal (sm_signal_pads sm ! nat (sint peer)
                      + of_int (spec_slot_offset (sint (sm_world_size sm)) (sint (sm_rank sm)) (sint c)))]
                    # replicate 31 (Inr [])]
              else [])
       \<and> on_device (calls_since s (snd (wait_signal env sm peer c s)))
           = (if env_status env (trace s) (Device_guard (sm_local_device_idx sm)) = 0
              then [Inr [Acquire_signal (sm_signal_pads sm ! nat (sint (sm_rank sm))
                      + of_int (spec_slot_offset (sint (sm_world_size sm)) (sint peer) (sint c))),
                         Threadfence_system]
                    # replicate 31 (Inr [Threadfence_system])]
              else [])"
proof -
  have c0: "0 \<le> sint c"
    using ok by (simp add: check_channel_def split: if_splits)
  have lo: "- (2 ^ 31) \<le> sint (sm_world_size sm) * sint c"
    using c0 rank by (simp add: order_trans [of _ 0])
  have p: "nat (sint peer) < length (sm_signal_pads sm)"
    using peer table by simp
  have r: "nat (sint (sm_rank sm)) < length (sm_signal_pads sm)"
    using rank table by simp
  show ?thesis
    by (simp add: on_device_def launches_def host_calls [OF ok] run_put_signal run_wait_signal
        slot_address_spec [OF peer(1) p lo fits] slot_address_spec [OF rank(1) r lo fits])
qed


lemma example_symm_simps:
  "sm_world_size example_symm = 2" "sm_rank example_symm = 0"
  "sm_signal_pads example_symm = [1048576 + 4096, 4194304 + 4096]"
  "sm_local_device_idx example_symm = 0"
  by (simp_all add: example_symm_def)

lemma check_3_2: "check_channel 3 2 = Inr ()"
  by (simp add: check_channel_def num_channels_def signal_pad_size_def sizeof_uint32_def)

lemma example_guard: "env_status example_env h e = 0"
  by (simp add: example_env_def)

theorem signal_slot_addressing_witness:
  "on_device (calls_since initial_state (snd (put_signal example_env example_symm 1 3 initial_state)))
     = [Inr [Release_signal (4194304 + 4096 + 24)] # replicate 31 (Inr [])]
   \<and> on_device (calls_since initial_state (snd (wait_signal example_env example_symm 1 3 initial_state)))
        = [Inr [Acquire_signal (1048576 + 4096 + 28), Threadfence_system]
           # replicate 31 (Inr [Threadfence_system])]"
  using signal_slot_addressing [of 3 example_symm 1 initial_state example_env]
  by (simp add: example_symm_simps check_3_2 spec_slot_offset_def example_guard)

section \<open>Host entry points of the signals\<close>

lemma check_channel_example: "check_channel 3 (sm_world_size example_symm) = Inr ()"
  "check_channel (- 1) (sm_world_size example_symm) = Inl (Check_failed Channel_negative)"
  by (simp_all add: check_channel_def num_channels_def signal_pad_size_def sizeof_uint32_def
      example_symm_def)

text \<open>
  C10, as amended. The entry points \<open>put_signal\<close>, \<open>wait_signal\<close> and \<open>barrier\<close>
  validate only the channel: a call fails one of the checks of the file exactly when
  \<open>check_channel\<close> fails it, whatever the rank argument is, negative or not below the
  world size (any other failure is an error that the device guard or the launch check
  reports). When the channel is accepted and the guard succeeds, the kernel is launched
  with the rank argument as it was given. \<open>put_signal_kernel\<close> reads the table of pad
  pointers at \<open>dst_rank\<close> (a read outside the table when \<open>dst_rank\<close> is negative or not
  below the table's length), and \<open>wait_signal_kernel\<close> reads the table at the local rank
  and adds \<open>src_rank\<close> to the slot index inside that pad.
\<close>

theorem sync_entry_points_check_channel_only:
  "(fst (put_signal env sm r c s) = Inl (Check_failed k))
      = (check_channel c (sm_world_size sm) = Inl (Check_failed k))
   \<and> (fst (wait_signal env sm r c s) = Inl (Check_failed k))
      = (check_channel c (sm_world_size sm) = Inl (Check_failed k))
   \<and> (fst (barrier env sm c s) = Inl (Check_failed k))
      = (check_channel c (sm_world_size sm) = Inl (Check_failed k))
   \<and> (fst (put_signal env sm r c s) = Inl e \<or> fst (wait_signal env sm r c s) = Inl e
        \<or> fst (barrier env sm c s) = Inl e
      \<longrightarrow> check_channel c (sm_world_size sm) = Inl e \<or> (\<exists>n. e = Driver_error n))
   \<and> (check_channel c (sm_world_size sm) = Inr ()
        \<and> env_status env (trace s) (Device_guard (sm_local_device_idx sm)) = 0
      \<longrightarrow>
        launches (calls_since s (snd (put_signal env sm r c s)))
          = [Launch_put_signal (sm_signal_pads sm) r c (sm_rank sm) (sm_world_size sm)]
        \<and> launches (calls_since s (snd (wait_signal env sm r c s)))
          = [Launch_wait_signal (sm_signal_pads sm) r c (sm_rank sm) (sm_world_size sm)])
   \<and> (- (2 ^ 31) \<le> sint (sm_world_size sm) * sint c
        \<and> sint (sm_world_size sm) * sint c < 2 ^ 31
        \<and> 0 \<le> sint (sm_rank sm) \<and> nat (sint (sm_rank sm)) < length (sm_signal_pads sm)
      \<longrightarrow>
        run_thread (Launch_put_signal (sm_signal_pads sm) r c (sm_rank sm) (sm_world_size sm)) 0
          = (if unat (scast r :: size_t) < length (sm_signal_pads sm)
             then Inr [Release_signal (sm_signal_pads sm ! unat (scast r :: size_t)
                         + 4 * scast (sm_world_size sm * c) + 4 * scast (sm_rank sm))]
             else Inl (Undefined_behaviour Index_out_of_range))
        \<and> run_thread (Launch_wait_signal (sm_signal_pads sm) r c (sm_rank sm) (sm_world_size sm)) 0
          = Inr [Acquire_signal (sm_signal_pads sm ! nat (sint (sm_rank sm))
                   + 4 * scast (sm_world_size sm * c) + 4 * scast r), Threadfence_system])"
proof -
  let ?pads = "sm_signal_pads sm" and ?W = "sm_world_size sm" and ?k = "sm_rank sm"
  have launched: "launches (calls_since s (snd (put_signal env sm r c s)))
          = [Launch_put_signal ?pads r c ?k ?W]
        \<and> launches (calls_since s (snd (wait_signal env sm r c s)))
          = [Launch_wait_signal ?pads r c ?k ?W]"
    if ok: "check_channel c ?W = Inr ()"
      and guard: "env_status env (trace s) (Device_guard (sm_local_device_idx sm)) = 0"
    using guard by (simp add: host_calls [OF ok] launches_def)
  have runs: "run_thread (Launch_put_signal ?pads r c ?k ?W) 0
          = (if unat (scast r :: size_t) < length ?pads
             then Inr [Release_signal (?pads ! unat (scast r :: size_t)
                         + 4 * scast (?W * c) + 4 * scast ?k)]
             else Inl (Undefined_behaviour Index_out_of_range))
        \<and> run_thread (Launch_wait_signal ?pads r c ?k ?W) 0
          = Inr [Acquire_signal (?pads ! nat (sint ?k) + 4 * scast (?W * c) + 4 * scast r),
                 Threadfence_system]"
    if fits: "- (2 ^ 31) \<le> sint ?W * sint c" "sint ?W * sint c < 2 ^ 31"
      and rank: "0 \<le> sint ?k" "nat (sint ?k) < length ?pads"
  proof -
    have a: "\<not> (sint ?W * sint c < - (2 ^ 31) \<or> 2 ^ 31 \<le> sint ?W * sint c)"
      using fits by simp
    have p: "run_thread (Launch_put_signal ?pads r c ?k ?W) 0 =
               (if unat (scast r :: size_t) < length ?pads
                then Inr [Release_signal (?pads ! unat (scast r :: size_t)
                            + 4 * scast (?W * c) + 4 * scast ?k)]
                else Inl (Undefined_behaviour Index_out_of_range))"
      using a by (simp add: put_signal_kernel_def slot_address_def vector_at_def)
    have w: "run_thread (Launch_wait_signal ?pads r c ?k ?W) 0 =
               Inr [Acquire_signal (?pads ! nat (sint ?k) + 4 * scast (?W * c) + 4 * scast r),
                    Threadfence_system]"
      using a by (simp add: wait_signal_kernel_def slot_address_def vector_at_in_range [OF rank])
    show ?thesis
      using p w by simp
  qed
  have fails: "(fst (put_signal env sm r c s) = Inl (Check_failed k))
      = (check_channel c ?W = Inl (Check_failed k))"
    "(fst (wait_signal env sm r c s) = Inl (Check_failed k))
      = (check_channel c ?W = Inl (Check_failed k))"
    "(fst (barrier env sm c s) = Inl (Check_failed k))
      = (check_channel c ?W = Inl (Check_failed k))"
    by (rule host_check_failures)+
  have others: "check_channel c ?W = Inl e \<or> (\<exists>n. e = Driver_error n)"
    if "fst (put_signal env sm r c s) = Inl e \<or> fst (wait_signal env sm r c s) = Inl e
        \<or> fst (barrier env sm c s) = Inl e"
    using that by (rule host_other_failures)
  show ?thesis
    using fails others launched runs by blast
qed

theorem sync_entry_points_check_channel_only_witness:
  "fst (put_signal example_env example_symm 7 (- 1) initial_state)
     = Inl (Check_failed Channel_negative)
   \<and> fst (wait_signal example_env example_symm 7 (- 1) initial_state)
     = Inl (Check_failed Channel_negative)
   \<and> fst (barrier example_env example_symm (- 1) initial_state)
     = Inl (Check_failed Channel_negative)
   \<and> (check_channel (- 1) (sm_world_size example_symm) = Inl (Check_failed Channel_negative)
        \<or> (\<exists>n. Check_failed Channel_negative = Driver_error n))
   \<and> check_channel 3 (sm_world_size example_symm) = Inr ()
   \<and> launches (calls_since initial_state (snd (put_signal example_env example_symm 7 3 initial_state)))
       = [Launch_put_signal [1048576 + 4096, 4194304 + 4096] 7 3 0 2]
   \<and> launches (calls_since initial_state (snd (wait_signal example_env example_symm 7 3 initial_state)))
       = [Launch_wait_signal [1048576 + 4096, 4194304 + 4096] 7 3 0 2]
   \<and> run_thread (Launch_put_signal [1048576 + 4096, 4194304 + 4096] 7 3 0 2) 0
       = Inl (Undefined_behaviour Index_out_of_range)
   \<and> run_thread (Launch_wait_signal [1048576 + 4096, 4194304 + 4096] 7 3 0 2) 0
       = Inr [Acquire_signal (1048576 + 4096 + 52), Threadfence_system]"
proof -
  have a: "sm_world_size example_symm = 2" "sm_rank example_symm = 0"
    "sm_signal_pads example_symm = [1048576 + 4096, 4194304 + 4096]"
    "sm_local_device_idx example_symm = 0"
    by (simp_all add: example_symm_def)
  note t1 = sync_entry_points_check_channel_only
      [of example_env example_symm 7 "- 1" initial_state Channel_negative
          "Check_failed Channel_negative"]
  note t2 = sync_entry_points_check_channel_only
      [of example_env example_symm 7 3 initial_state Channel_negative
          "Check_failed Channel_negative"]
  have p: "fst (put_signal example_env example_symm 7 (- 1) initial_state)
     = Inl (Check_failed Channel_negative)"
    using t1 [THEN conjunct1] check_channel_example(2) by (rule iffD2)
  have w: "fst (wait_signal example_env example_symm 7 (- 1) initial_state)
     = Inl (Check_failed Channel_negative)"
    using t1 [THEN conjunct2, THEN conjunct1] check_channel_example(2) by (rule iffD2)
  have b: "fst (barrier example_env example_symm (- 1) initial_state)
     = Inl (Check_failed Channel_negative)"
    using t1 [THEN conjunct2, THEN conjunct2, THEN conjunct1] check_channel_example(2)
    by (rule iffD2)
  have o: "check_channel (- 1) (sm_world_size example_symm) = Inl (Check_failed Channel_negative)
        \<or> (\<exists>n. Check_failed Channel_negative = Driver_error n)"
    using t1 [THEN conjunct2, THEN conjunct2, THEN conjunct2, THEN conjunct1] p by blast
  have g: "check_channel 3 (sm_world_size example_symm) = Inr ()
      \<and> env_status example_env (trace initial_state)
            (Device_guard (sm_local_device_idx example_symm)) = 0"
    using check_channel_example(1) by (simp add: example_guard)
  have l: "launches (calls_since initial_state (snd (put_signal example_env example_symm 7 3 initial_state)))
          = [Launch_put_signal (sm_signal_pads example_symm) 7 3 (sm_rank example_symm)
               (sm_world_size example_symm)]
        \<and> launches (calls_since initial_state (snd (wait_signal example_env example_symm 7 3 initial_state)))
          = [Launch_wait_signal (sm_signal_pads example_symm) 7 3 (sm_rank example_symm)
               (sm_world_size example_symm)]"
    using t2 [THEN conjunct2, THEN conjunct2, THEN conjunct2, THEN conjunct2, THEN conjunct1] g
    by (rule mp)
  have f: "- (2 ^ 31) \<le> sint (sm_world_size example_symm) * sint (3 :: c_int)
        \<and> sint (sm_world_size example_symm) * sint (3 :: c_int) < 2 ^ 31
        \<and> 0 \<le> sint (sm_rank example_symm)
        \<and> nat (sint (sm_rank example_symm)) < length (sm_signal_pads example_symm)"
    by (simp add: a)
  have k: "run_thread (Launch_put_signal (sm_signal_pads example_symm) 7 3 (sm_rank example_symm)
               (sm_world_size example_symm)) 0
          = (if unat (scast (7 :: c_int) :: size_t) < length (sm_signal_pads example_symm)
             then Inr [Release_signal (sm_signal_pads example_symm ! unat (scast (7 :: c_int) :: size_t)
                         + 4 * scast (sm_world_size example_symm * 3)
                         + 4 * scast (sm_rank example_symm))]
             else Inl (Undefined_behaviour Index_out_of_range))
        \<and> run_thread (Launch_wait_signal (sm_signal_pads example_symm) 7 3 (sm_rank example_symm)
               (sm_world_size example_symm)) 0
          = Inr [Acquire_signal (sm_signal_pads example_symm ! nat (sint (sm_rank example_symm))
                   + 4 * scast (sm_world_size example_symm * 3) + 4 * scast (7 :: c_int)),
                 Threadfence_system]"
    using t2 [THEN conjunct2, THEN conjunct2, THEN conjunct2, THEN conjunct2, THEN conjunct2] f
    by (rule mp)
  show ?thesis
    using p w b o g l k by (simp add: a)
qed

text \<open>
  The claim as stated fails for \<open>wait_signal\<close>: source rank 7 is outside the table of
  two pad pointers, and the kernel does not read the table there. It reads the table at
  the local rank 0 and acquires the slot 52 bytes (4 * (2 * 3) + 4 * 7) after that pad's
  base.
\<close>

theorem wait_signal_kernel_reads_table_at_local_rank:
  "vector_at (sm_signal_pads example_symm) 7 = Inl (Undefined_behaviour Index_out_of_range)
   \<and> sm_rank example_symm = 0
   \<and> vector_at (sm_signal_pads example_symm) 0 = Inr (1048576 + 4096)
   \<and> wait_signal example_env example_symm 7 3 initial_state
        = (Inr (),
           initial_state
             \<lparr>trace :=
                [Device_guard 0,
                 Launch_kernel (Launch_wait_signal [1048576 + 4096, 4194304 + 4096] 7 3 0 2),
                 Kernel_launch_check]\<rparr>)
   \<and> on_device
        [Device_guard 0,
         Launch_kernel (Launch_wait_signal [1048576 + 4096, 4194304 + 4096] 7 3 0 2),
         Kernel_launch_check]
        = [Inr [Acquire_signal (1048576 + 4096 + 52), Threadfence_system]
           # replicate 31 (Inr [Threadfence_system])]"
  using check_channel_example
  by (simp add: on_device_def launches_def wait_signal_def run_wait_signal slot_address_def
      vector_at_def example_symm_def and_then_def lift_def driver_call_def system_call_def
      succeed_def example_guard initial_state_def)


section \<open>\<open>get_buffer\<close>\<close>

lemma uint_nonneg_sint:
  assumes "0 \<le> sint (d :: int64)"
  shows "uint d = sint d"
proof -
  have "sint d < 2 ^ 64"
    using sint_lt [of d] by simp
  then show ?thesis
    using assms by (simp add: uint_sint take_bit_int_eq_self)
qed

lemma sint_ucast_dim:
  assumes "0 \<le> sint (d :: int64)" "sint d < 2 ^ 31"
  shows "sint (ucast d :: c_int) = sint d"
proof -
  have "sint (ucast d :: c_int) = signed_take_bit 31 (uint d)"
    by (simp only: ucast_eq sint_sbintrunc') simp
  then show ?thesis
    using assms by (simp add: uint_nonneg_sint signed_take_bit_int_eq_self)
qed

lemma sint_scast_int: "sint (scast (n :: c_int) :: int64) = sint n"
  by (rule sint_up_scast) (simp add: is_up)

text \<open>
  Where every dimension and every partial product of the dimensions fits an \<open>int\<close>, the
  accumulated \<open>int\<close> is the number of elements.
\<close>

lemma accumulate_multiplies_exact:
  assumes "\<forall>d\<in>set ds. 0 \<le> sint d \<and> sint d < 2 ^ 31"
    and "0 \<le> sint acc"
    and "\<forall>k\<le>length ds. sint acc * prod_list (map sint (take k ds)) < 2 ^ 31"
  shows "\<exists>n. accumulate_multiplies acc ds = Inr n \<and> sint n = sint acc * prod_list (map sint ds)"
  using assms
proof (induction ds arbitrary: acc)
  case Nil
  then show ?case by simp
next
  case (Cons d ds)
  have d: "0 \<le> sint d" "sint d < 2 ^ 31"
    using Cons.prems(1) by simp_all
  have y: "sint (ucast d :: c_int) = sint d"
    by (rule sint_ucast_dim [OF d])
  have "sint acc * prod_list (map sint (take 1 (d # ds))) < 2 ^ 31"
    using Cons.prems(3) [rule_format, of 1] by simp
  then have hi: "sint acc * sint d < 2 ^ 31"
    by simp
  have lo: "0 \<le> sint acc * sint d"
    using d(1) Cons.prems(2) by simp
  have m: "sint (acc * ucast d) = sint acc * sint d"
    using hi lo by (simp add: sint_mult_in_range y)
  have "\<forall>k\<le>length ds. sint (acc * ucast d) * prod_list (map sint (take k ds)) < 2 ^ 31"
  proof (intro allI impI)
    fix k assume "k \<le> length ds"
    then have "sint acc * prod_list (map sint (take (Suc k) (d # ds))) < 2 ^ 31"
      using Cons.prems(3) [rule_format, of "Suc k"] by simp
    then show "sint (acc * ucast d) * prod_list (map sint (take k ds)) < 2 ^ 31"
      by (simp add: m mult.assoc)
  qed
  moreover have "\<forall>x\<in>set ds. 0 \<le> sint x \<and> sint x < 2 ^ 31"
    using Cons.prems(1) by simp
  moreover have "0 \<le> sint (acc * ucast d)"
    using lo m by simp
  ultimately have "\<exists>n. accumulate_multiplies (acc * ucast d) ds = Inr n \<and>
      sint n = sint (acc * ucast d) * prod_list (map sint ds)"
    using Cons.IH [of "acc * ucast d"] by blast
  then obtain n where n: "accumulate_multiplies (acc * ucast d) ds = Inr n"
      "sint n = sint (acc * ucast d) * prod_list (map sint ds)"
    by blast
  have step: "accumulate_multiplies acc (d # ds) = accumulate_multiplies (acc * ucast d) ds"
    using hi lo by (simp add: y)
  have "sint n = sint acc * prod_list (map sint (d # ds))"
    unfolding n(2) m by simp
  then show ?case
    using n(1) step by simp
qed

text \<open>
  On such shapes, for a rank of the group and an offset that keeps
  \<open>(numel + offset) * element_size\<close> inside \<open>size_t\<close>, \<open>get_buffer\<close> succeeds exactly
  when that product is at most \<open>buffer_size_\<close>, with a view over the pointer of the
  rank.
\<close>

lemma get_buffer_in_range:
  fixes elementSize :: "'dtype \<Rightarrow> size_t"
  assumes dims: "\<forall>d\<in>set szs. 0 \<le> sint d \<and> sint d < 2 ^ 31"
    and prefix: "\<forall>k\<le>length szs. prod_list (map sint (take k szs)) < 2 ^ 31"
    and lo: "0 \<le> prod_list (map sint szs) + sint offset"
    and hi: "prod_list (map sint szs) + sint offset < 2 ^ 63"
    and fits: "(prod_list (map sint szs) + sint offset) * uint (elementSize dt) < 2 ^ 64"
    and rank: "0 \<le> sint rank" "nat (sint rank) < length (sm_buffers sm)"
  shows "get_buffer elementSize sm rank szs dt offset =
           (if (prod_list (map sint szs) + sint offset) * uint (elementSize dt)
                 \<le> uint (sm_buffer_size sm)
            then Inr \<lparr>data_ptr = sm_buffers sm ! nat (sint rank), sizes = szs,
                      storage_offset = offset, dtype = dt, device = sm_local_device_idx sm\<rparr>
            else Inl (Check_failed Get_buffer_size_exceeded))"
proof -
  let ?N = "prod_list (map sint szs)"
  have "\<exists>n. accumulate_multiplies 1 szs = Inr n \<and> sint n = sint (1 :: c_int) * ?N"
    using dims prefix by (intro accumulate_multiplies_exact) simp_all
  then obtain n where n: "accumulate_multiplies 1 szs = Inr n" "sint n = ?N"
    by auto
  have s: "sint ((scast n :: int64) + offset) = ?N + sint offset"
    using lo hi by (simp add: sint_word_add sint_scast_int n(2) signed_take_bit_int_eq_self)
  then have u: "uint ((scast n :: int64) + offset) = ?N + sint offset"
    using lo by (simp add: uint_nonneg_sint)
  have "uint ((scast n :: int64) + offset) * uint (elementSize dt) < 2 ^ LENGTH(64)"
    using fits u by simp
  then have "uint (((scast n :: int64) + offset) * elementSize dt)
               = uint ((scast n :: int64) + offset) * uint (elementSize dt)"
    by (simp only: uint_mult_lem)
  then have r: "uint (((scast n :: int64) + offset) * elementSize dt)
               = (?N + sint offset) * uint (elementSize dt)"
    by (simp only: u)
  have ov: "\<not> (sint n + sint offset < - (2 ^ 63) \<or> 2 ^ 63 \<le> sint n + sint offset)"
    using lo hi n(2) by simp
  show ?thesis
    using ov by (simp add: get_buffer_def n(1) word_le_def r vector_at_in_range [OF rank])
qed

text \<open>The two examples of the specification: 4096 bytes of payload, 4-byte elements.\<close>

lemma get_buffer_examples:
  "get_buffer (\<lambda>_. 4) example_symm 0 [1024] () 0
     = Inr \<lparr>data_ptr = 1048576, sizes = [1024], storage_offset = 0, dtype = (), device = 0\<rparr>"
  "get_buffer (\<lambda>_. 4) example_symm 0 [1025] () 0 = Inl (Check_failed Get_buffer_size_exceeded)"
  by (simp_all add: get_buffer_def example_symm_def vector_at_def)

text \<open>
  A negative \<open>numel + storage_offset\<close> becomes a large \<open>size_t\<close> and is refused.
\<close>

lemma get_buffer_negative_offset:
  "get_buffer (\<lambda>_. 4) example_symm 0 [1] () (- 2) = Inl (Check_failed Get_buffer_size_exceeded)"
  by (simp add: get_buffer_def example_symm_def vector_at_def)

text \<open>
  C2. The claim: \<open>get_buffer\<close> succeeds if and only if
  \<open>(numel(shape) + offset) * elementSize(dtype) \<le> buffer_size\<close>. The code keeps the number
  of elements in an \<open>int\<close> and converts every dimension to \<open>int\<close> before multiplying:
  the shape \<open>[4294967296]\<close> has 4294967296 elements, the code counts 0, and with 4096
  bytes of payload and 4-byte elements \<open>get_buffer\<close> returns a view of that shape where
  the claim has it fail.
\<close>

theorem get_buffer_counts_elements_in_int:
  "get_buffer (\<lambda>_. 4) example_symm 0 [4294967296] () 0
     = Inr \<lparr>data_ptr = 1048576, sizes = [4294967296], storage_offset = 0, dtype = (),
            device = 0\<rparr>
   \<and> \<not> spec_request_fits 4 example_symm [4294967296] 0
   \<and> sm_buffer_size example_symm = 4096"
  by (simp add: get_buffer_def example_symm_def vector_at_def spec_request_fits_def)


section \<open>Actions\<close>

lemma and_then_Inr: "m s = (Inr x, s1) \<Longrightarrow> and_then m f s = f x s1"
  by (simp add: and_then_def)

lemma and_then_Inl: "m s = (Inl e, s1) \<Longrightarrow> and_then m f s = (Inl e, s1)"
  by (simp add: and_then_def)

lemma and_then_cases:
  assumes "and_then m f s = (r, s')"
  obtains (failed) e where "m s = (Inl e, s')" "r = Inl e"
    | (went_on) x s1 where "m s = (Inr x, s1)" "f x s1 = (r, s')"
  using assms by (auto simp: and_then_def split: prod.splits sum.splits)

lemma and_then_succeed [simp]: "and_then (succeed x) f = f x"
  by (rule ext) (simp add: and_then_def succeed_def)

lemma and_then_fail [simp]: "and_then (fail e) f = fail e"
  by (rule ext) (simp add: and_then_def fail_def)

lemma and_then_lift_Inr [simp]: "and_then (lift (Inr x)) f = f x"
  by (rule ext) (simp add: and_then_def lift_def)

lemma and_then_lift_Inl [simp]: "and_then (lift (Inl e)) f = fail e"
  by (rule ext) (simp add: and_then_def lift_def fail_def)

lemma extends_by_refl: "extends_by P s s"
  by (simp add: extends_by_def)

lemma extends_by_trans: "extends_by P s s1 \<Longrightarrow> extends_by P s1 s2 \<Longrightarrow> extends_by P s s2"
  by (auto simp: extends_by_def)

lemma extends_by_mono: "extends_by P s s' \<Longrightarrow> (\<And>e. P e \<Longrightarrow> Q e) \<Longrightarrow> extends_by Q s s'"
  by (auto simp: extends_by_def list_all_iff)

lemma extends_by_seq:
  "extends_by P s s' \<Longrightarrow> extends_by P (s\<lparr>store_comm_seq_id := c\<rparr>) s'"
  by (simp add: extends_by_def)

lemma calls_onlyD: "calls_only P m \<Longrightarrow> m s = (r, s') \<Longrightarrow> extends_by P s s'"
  by (simp add: calls_only_def)

lemma calls_only_succeed: "calls_only P (succeed x)"
  by (simp add: calls_only_def succeed_def extends_by_refl)

lemma calls_only_fail: "calls_only P (fail e)"
  by (simp add: calls_only_def fail_def extends_by_refl)

lemma calls_only_lift: "calls_only P (lift r)"
  by (simp add: calls_only_def lift_def extends_by_refl)

lemma calls_only_and_then:
  assumes "calls_only P m" "\<And>x. calls_only P (f x)"
  shows "calls_only P (and_then m f)"
  unfolding calls_only_def
proof (intro allI impI)
  fix s r s' assume a: "and_then m f s = (r, s')"
  then show "extends_by P s s'"
  proof (cases rule: and_then_cases)
    case (failed e)
    then show ?thesis using assms(1) by (simp add: calls_only_def)
  next
    case (went_on x s1)
    have "extends_by P s s1"
      using assms(1) went_on(1) by (rule calls_onlyD)
    moreover have "extends_by P s1 s'"
      using assms(2) went_on(2) by (rule calls_onlyD)
    ultimately show ?thesis
      by (rule extends_by_trans)
  qed
qed

lemma calls_only_driver_call: "P e \<Longrightarrow> calls_only P (driver_call env e)"
  by (auto simp: calls_only_def driver_call_def extends_by_def split: if_splits)

lemma calls_only_driver_call32: "P e \<Longrightarrow> calls_only P (driver_call32 env e)"
  by (auto simp: calls_only_def driver_call32_def extends_by_def split: if_splits)

lemma calls_only_system_call: "P e \<Longrightarrow> calls_only P (system_call env e)"
  by (auto simp: calls_only_def system_call_def extends_by_def)

lemma calls_only_store_wait: "P (Store_wait k) \<Longrightarrow> calls_only P (store_wait env k)"
  by (auto simp: calls_only_def store_wait_def extends_by_def split: if_splits)

lemma calls_only_store_get: "P (Store_get k) \<Longrightarrow> calls_only P (store_get env k)"
  by (auto simp: calls_only_def store_get_def extends_by_def)

lemmas calls_only_intros =
  calls_only_succeed calls_only_fail calls_only_lift calls_only_and_then
  calls_only_driver_call calls_only_driver_call32 calls_only_system_call
  calls_only_store_wait calls_only_store_get

lemma calls_only_map_block:
  assumes "\<And>a b c. P (Mem_address_reserve a)" "\<And>a b c. P (Mem_map a b c)" "\<And>a b c. P (Mem_set_access a b c)"
  shows "calls_only P (map_block env h sz dev)"
  unfolding map_block_def by (intro calls_only_intros assms)



lemma and_then_Inr_iff:
  "and_then m f s = (Inr y, s') \<longleftrightarrow> (\<exists>x s1. m s = (Inr x, s1) \<and> f x s1 = (Inr y, s'))"
  by (auto simp: and_then_def split: prod.splits sum.splits)

lemma and_then_Inl_iff:
  "and_then m f s = (Inl e, s') \<longleftrightarrow>
     m s = (Inl e, s') \<or> (\<exists>x s1. m s = (Inr x, s1) \<and> f x s1 = (Inl e, s'))"
  by (auto simp: and_then_def split: prod.splits sum.splits)

lemma driver_call_Inr_iff:
  "driver_call env e s = (Inr v, s') \<longleftrightarrow>
     env_status env (trace s) e = 0 \<and> v = env_value64 env (trace s) e
     \<and> s' = s\<lparr>trace := trace s @ [e]\<rparr>"
  by (auto simp: driver_call_def)

lemma driver_call32_Inr_iff:
  "driver_call32 env e s = (Inr v, s') \<longleftrightarrow>
     env_status env (trace s) e = 0 \<and> v = env_value32 env (trace s) e
     \<and> s' = s\<lparr>trace := trace s @ [e]\<rparr>"
  by (auto simp: driver_call32_def)

lemma system_call_iff:
  "system_call env e s = (r, s') \<longleftrightarrow>
     r = Inr (env_value32 env (trace s) e) \<and> s' = s\<lparr>trace := trace s @ [e]\<rparr>"
  by (auto simp: system_call_def)

lemma succeed_iff: "succeed x s = (r, s') \<longleftrightarrow> r = Inr x \<and> s' = s"
  by (auto simp: succeed_def)

lemma fail_iff: "fail e s = (r, s') \<longleftrightarrow> r = Inl e \<and> s' = s"
  by (auto simp: fail_def)

lemma lift_iff: "lift x s = (r, s') \<longleftrightarrow> r = x \<and> s' = s"
  by (auto simp: lift_def)

lemmas run_simps = and_then_Inr_iff driver_call_Inr_iff driver_call32_Inr_iff system_call_iff
  succeed_iff fail_iff lift_iff

section \<open>The allocator\<close>

lemma map_block_Inr:
  assumes "map_block env h sz dev s = (Inr p, s')"
  shows "p = env_value64 env (trace s) (Mem_address_reserve sz)
    \<and> s' = s\<lparr>trace := trace s @ [Mem_address_reserve sz, Mem_map p sz h, Mem_set_access p sz dev]\<rparr>"
  using assms by (auto simp: map_block_def run_simps)

lemma alloc_Inr:
  assumes "alloc env sz dev grp s = (Inr p, s')"
  defines "g \<equiv> env_value64 env (trace s) (Get_allocation_granularity dev)"
  defines "rounded \<equiv> round_up (round_up sz 16 + signal_pad_size) g"
  defines "h \<equiv> env_value64 env (trace s @ [Get_allocation_granularity dev]) (Mem_create rounded dev)"
  shows "g \<noteq> 0
     \<and> s' = s\<lparr>trace := trace s @
                   [Get_allocation_granularity dev, Mem_create rounded dev,
                    Mem_address_reserve rounded, Mem_map p rounded h,
                    Mem_set_access p rounded dev, Device_guard dev, Memset p rounded],
              ptr_to_block :=
                emplace (ptr_to_block s) p
                  \<lparr>handle = h, device_idx = dev, block_size = rounded, buffer_size = sz,
                   signal_pad_offset = round_up sz 16, group_name = grp, symm_mem = None\<rparr>\<rparr>"
  using assms(1) unfolding g_def rounded_def h_def
  by (auto simp: alloc_def Let_def run_simps dest!: map_block_Inr split: if_splits)


lemma driver_call_Inl_iff:
  "driver_call env e s = (Inl x, s') \<longleftrightarrow>
     env_status env (trace s) e \<noteq> 0 \<and> x = Driver_error (env_status env (trace s) e)
     \<and> s' = s\<lparr>trace := trace s @ [e]\<rparr>"
  by (auto simp: driver_call_def)

lemma driver_call32_Inl_iff:
  "driver_call32 env e s = (Inl x, s') \<longleftrightarrow>
     env_status env (trace s) e \<noteq> 0 \<and> x = Driver_error (env_status env (trace s) e)
     \<and> s' = s\<lparr>trace := trace s @ [e]\<rparr>"
  by (auto simp: driver_call32_def)

lemmas fail_simps = and_then_Inl_iff driver_call_Inl_iff driver_call32_Inl_iff

lemma map_block_extends:
  assumes "map_block env h sz dev s = (r, s')"
  shows "extends_by (\<lambda>e. \<not> unmaps_or_releases e) s s'"
  using calls_only_map_block [of "\<lambda>e. \<not> unmaps_or_releases e" env h sz dev] assms
  by (simp add: calls_only_def)

lemma alloc_Inl:
  assumes "alloc env sz dev grp s = (Inl e, s')"
  shows "extends_by (\<lambda>e. \<not> unmaps_or_releases e) s s'"
  using assms
  by (auto simp: alloc_def Let_def fail_simps run_simps extends_by_def
      dest!: map_block_extends split: if_splits)


section \<open>Frames\<close>

lemma calls_only_unmap_and_release:
  assumes "\<And>a b. P (Mem_unmap a b)" "\<And>a. P (Mem_release a)"
  shows "calls_only P (unmap_and_release env sm rs)"
  by (induction rs) (auto intro!: calls_only_intros assms)

lemma calls_only_destroy: "calls_only (\<lambda>_. True) (destroy_symmetric_memory env sm)"
proof -
  have "calls_only (\<lambda>_. True)
     (and_then (driver_call env (Device_guard (sm_local_device_idx sm))) (\<lambda>_.
         and_then (driver_call env Device_synchronize) (\<lambda>_.
         and_then (unmap_and_release env sm [0..<nat (sint (sm_world_size sm))]) (\<lambda>_.
         and_then (system_call env (Raw_delete (sm_buffers_dev sm))) (\<lambda>_.
         and_then (system_call env (Raw_delete (sm_signal_pads_dev sm))) (\<lambda>_.
         succeed ()))))))"
    by (intro calls_only_intros calls_only_unmap_and_release) simp_all
  then show ?thesis
    by (auto simp: calls_only_def destroy_symmetric_memory_def extends_by_refl)
qed

lemma calls_only_gather_peers:
  assumes "\<And>k. P (Store_wait k)" "\<And>k. P (Store_get k)"
  shows "calls_only P (gather_peers env T keys rank val rs)"
  by (induction rs) (auto intro!: calls_only_intros assms)

lemma calls_only_store_all_gather:
  assumes "\<And>k v. P (Store_set k v)" "\<And>k. P (Store_wait k)" "\<And>k. P (Store_get k)"
  shows "calls_only P (store_all_gather env T rank world_size val)"
proof -
  have "calls_only P 
      (and_then (lift (vector_at peer_keys rank)) (\<lambda>k.
       and_then (system_call env (Store_set k payload)) (\<lambda>_.
       gather_peers env T peer_keys rank val [0..<nat (sint world_size)])))" for peer_keys payload
    by (intro calls_only_intros calls_only_gather_peers assms)
  then have a: "extends_by P s1 s'"
    if "(and_then (lift (vector_at peer_keys rank)) (\<lambda>k.
       and_then (system_call env (Store_set k payload)) (\<lambda>_.
       gather_peers env T peer_keys rank val [0..<nat (sint world_size)]))) s1 = (r, s')"
    for peer_keys payload s1 r s'
    using that by (simp add: calls_only_def)
  show ?thesis
    unfolding calls_only_def store_all_gather_def Let_def
  proof (intro allI impI)
    fix s r s'
    assume "and_then (lift (vector_at (map (peer_key (store_comm_seq_id s)) [0..<nat (sint world_size)]) rank))
        (\<lambda>k. and_then (system_call env (Store_set k (to_bytes T (env_padding env (trace s)) val)))
              (\<lambda>_. gather_peers env T (map (peer_key (store_comm_seq_id s)) [0..<nat (sint world_size)])
                    rank val [0..<nat (sint world_size)]))
        (s\<lparr>store_comm_seq_id := store_comm_seq_id s + 1\<rparr>) = (r, s')"
    then have "extends_by P (s\<lparr>store_comm_seq_id := store_comm_seq_id s + 1\<rparr>) s'"
      by (rule a)
    then show "extends_by P s s'"
      by (simp add: extends_by_def)
  qed
qed

lemma calls_only_store_barrier:
  assumes "\<And>k v. P (Store_set k v)" "\<And>k. P (Store_wait k)" "\<And>k. P (Store_get k)"
  shows "calls_only P (store_barrier env rank world_size)"
  unfolding store_barrier_def
  by (intro calls_only_intros calls_only_store_all_gather assms)

lemma calls_only_gather_requests:
  "calls_only (\<lambda>e. \<not> imports_or_maps e \<and> \<not> unmaps_or_releases e) (gather_requests env b)"
  unfolding gather_requests_def Let_def
  by (intro calls_only_intros calls_only_store_all_gather) simp_all

lemma calls_only_import_peers:
  "calls_only (\<lambda>e. \<not> unmaps_or_releases e) (import_peers env b p rank reqs rs)"
  by (induction rs)
    (auto intro!: calls_only_intros calls_only_map_block simp: import_remote_fd_def)

lemma calls_only_construct:
  "calls_only (\<lambda>e. \<not> unmaps_or_releases e)
     (construct_symmetric_memory env hs bsize bufs pads bufsize dev rank world_size)"
  unfolding construct_symmetric_memory_def Let_def
  by (intro calls_only_intros) simp_all

lemma calls_only_map_peers:
  "calls_only (\<lambda>e. \<not> unmaps_or_releases e) (map_peers env p b block_fd reqs)"
  unfolding map_peers_def Let_def
  by (intro calls_only_intros calls_only_import_peers calls_only_store_barrier
      calls_only_construct) simp_all

lemma calls_only_weaken:
  "calls_only P m \<Longrightarrow> (\<And>e. P e \<Longrightarrow> Q e) \<Longrightarrow> calls_only Q m"
  unfolding calls_only_def using extends_by_mono by blast

lemma calls_only_rendezvous_exchange:
  "calls_only (\<lambda>e. \<not> unmaps_or_releases e) (rendezvous_exchange env p b)"
  unfolding rendezvous_exchange_def
  by (intro calls_only_and_then calls_only_weaken [OF calls_only_gather_requests])
    (auto intro: calls_only_map_peers)


section \<open>Validation of the rendezvous requests\<close>

lemma scast_negative_unat:
  assumes "sint (c :: c_int) < 0"
  shows "2 ^ 63 \<le> unat (scast c :: size_t)"
proof -
  have lo: "- (2 ^ 31) \<le> sint c"
    using sint_ge [of c] by simp
  have "uint (scast c :: size_t) = sint c mod 2 ^ 64"
    by (simp only: scast_eq uint_word_of_int) simp
  also have "\<dots> = (sint c + 2 ^ 64) mod 2 ^ 64"
    by (simp only: mod_add_self2)
  also have "\<dots> = sint c + 2 ^ 64"
    using assms lo by (intro mod_pos_pos_trivial) simp_all
  finally have "uint (scast c :: size_t) = sint c + 2 ^ 64" .
  then have "2 ^ 63 \<le> uint (scast c :: size_t)"
    using lo by simp
  moreover have "int (unat (scast c :: size_t)) = uint (scast c :: size_t)"
    by simp
  ultimately have "(2 ^ 63 :: int) \<le> int (unat (scast c :: size_t))"
    by (simp only:)
  then have "int (2 ^ 63) \<le> int (unat (scast c :: size_t))"
    by simp
  then show ?thesis
    by (simp only: of_nat_le_iff)
qed

lemma requests_match_iff:
  "requests_match reqs rs = Inr () \<longleftrightarrow>
     (\<forall>r\<in>set rs. req_block_size (reqs ! r) = req_block_size (reqs ! 0)
        \<and> req_buffer_size (reqs ! r) = req_buffer_size (reqs ! 0)
        \<and> req_signal_pad_offset (reqs ! r) = req_signal_pad_offset (reqs ! 0))"
  by (induction rs) auto

lemma requests_match_fails:
  "requests_match reqs rs = Inl e \<Longrightarrow>
     e \<in> {Check_failed Block_size_mismatch, Check_failed Buffer_size_mismatch,
          Check_failed Signal_pad_offset_mismatch}"
  by (induction rs) (auto split: if_splits)

lemma validate_iff:
  assumes "length reqs < 2 ^ 63"
  shows "validate_rendezvous_requests reqs world_size = Inr () \<longleftrightarrow>
     int (length reqs) = sint world_size
     \<and> distinct (map req_device_idx reqs)
     \<and> (\<forall>r<length reqs. req_block_size (reqs ! r) = req_block_size (reqs ! 0)
          \<and> req_buffer_size (reqs ! r) = req_buffer_size (reqs ! 0)
          \<and> req_signal_pad_offset (reqs ! r) = req_signal_pad_offset (reqs ! 0))"
proof (cases "0 \<le> sint world_size")
  case False
  then have "2 ^ 63 \<le> unat (scast world_size :: size_t)"
    by (intro scast_negative_unat) simp
  then have "length reqs \<noteq> unat (scast world_size :: size_t)"
    using assms by simp
  then show ?thesis
    using False by (simp add: validate_rendezvous_requests_def)
next
  case True
  let ?n = "nat (sint world_size)"
  have u: "unat (scast world_size :: size_t) = ?n"
    by (rule scast_nonneg_unat [OF True])
  show ?thesis
  proof (cases "length reqs = ?n")
    case False
    then show ?thesis
      using True by (auto simp: validate_rendezvous_requests_def u)
  next
    case len: True
    have c: "card (set (map req_device_idx reqs)) < ?n \<longleftrightarrow> \<not> distinct (map req_device_idx reqs)"
    proof (cases "distinct (map req_device_idx reqs)")
      case True
      then have "card (set (map req_device_idx reqs)) = ?n"
        using distinct_card [of "map req_device_idx reqs"] len by (simp del: set_map)
      then show ?thesis using True by (simp del: set_map)
    next
      case False
      have "card (set (map req_device_idx reqs)) \<noteq> length (map req_device_idx reqs)"
        using False card_distinct [of "map req_device_idx reqs"] by blast
      moreover have "card (set (map req_device_idx reqs)) \<le> length (map req_device_idx reqs)"
        by (rule card_length)
      ultimately show ?thesis
        using False len by (simp del: set_map)
    qed
    have m: "(\<forall>r\<in>set [1..<?n]. req_block_size (reqs ! r) = req_block_size (reqs ! 0)
        \<and> req_buffer_size (reqs ! r) = req_buffer_size (reqs ! 0)
        \<and> req_signal_pad_offset (reqs ! r) = req_signal_pad_offset (reqs ! 0))
      \<longleftrightarrow> (\<forall>r<length reqs. req_block_size (reqs ! r) = req_block_size (reqs ! 0)
          \<and> req_buffer_size (reqs ! r) = req_buffer_size (reqs ! 0)
          \<and> req_signal_pad_offset (reqs ! r) = req_signal_pad_offset (reqs ! 0))"
      (is "?A \<longleftrightarrow> ?B")
    proof
      assume a: ?A
      show ?B
      proof (intro allI impI)
        fix r assume "r < length reqs"
        then show "req_block_size (reqs ! r) = req_block_size (reqs ! 0)
          \<and> req_buffer_size (reqs ! r) = req_buffer_size (reqs ! 0)
          \<and> req_signal_pad_offset (reqs ! r) = req_signal_pad_offset (reqs ! 0)"
          using a len by (cases "r = 0") auto
      qed
    next
      assume ?B
      then show ?A using len by auto
    qed
    have "requests_match reqs [1..<?n] = Inr () \<longleftrightarrow>
        (\<forall>r<length reqs. req_block_size (reqs ! r) = req_block_size (reqs ! 0)
          \<and> req_buffer_size (reqs ! r) = req_buffer_size (reqs ! 0)
          \<and> req_signal_pad_offset (reqs ! r) = req_signal_pad_offset (reqs ! 0))"
      by (simp only: requests_match_iff m)
    then show ?thesis
      using True len by (simp add: validate_rendezvous_requests_def u c del: set_map)
  qed
qed

lemma validate_fails:
  "validate_rendezvous_requests reqs world_size = Inl e \<Longrightarrow>
     e \<in> {Check_failed Request_count, Check_failed Overlapping_devices,
          Check_failed Block_size_mismatch, Check_failed Buffer_size_mismatch,
          Check_failed Signal_pad_offset_mismatch}"
  using requests_match_fails [of reqs "[1..<nat (sint world_size)]" e]
  by (auto simp: validate_rendezvous_requests_def split: if_splits)


section \<open>Block sizes\<close>

lemma round_up_nat:
  fixes n m :: nat
  assumes "0 < m"
  shows "m dvd (n + m - 1) div m * m" "n \<le> (n + m - 1) div m * m"
    "(n + m - 1) div m * m < n + m"
proof -
  let ?x = "n + m - 1"
  show "m dvd ?x div m * m" by simp
  have a: "?x div m * m = ?x - ?x mod m"
    by (simp add: minus_mod_eq_div_mult)
  have "?x mod m \<le> m - 1"
    using assms by (simp add: Suc_leI less_imp_diff_less mod_less_divisor Nat.le_diff_conv2)
  then show "n \<le> ?x div m * m"
    unfolding a using assms by linarith
  show "?x div m * m < n + m"
    unfolding a using assms by linarith
qed

lemma round_up_unat:
  assumes "b \<noteq> 0" "unat a + unat b \<le> 2 ^ 64"
  shows "unat (round_up a b) = (unat a + unat b - 1) div unat b * unat b"
proof -
  have b: "0 < unat b"
    using assms(1) by (simp add: unat_gt_0)
  have e: "a + b - 1 = a + (b - 1)"
    by simp
  have m1: "unat (b - 1) = unat b - 1"
    using assms(1) by (rule unat_minus_one)
  have "unat a + unat (b - 1) < 2 ^ LENGTH(64)"
    using assms(2) b m1 by simp
  then have "unat (a + (b - 1)) = unat a + unat (b - 1)"
    by (simp only: unat_add_lem)
  then have s: "unat (a + b - 1) = unat a + unat b - 1"
    using b by (simp only: e m1)
  have d: "unat ((a + b - 1) div b) = (unat a + unat b - 1) div unat b"
    by (simp add: unat_div s)
  have "(unat a + unat b - 1) div unat b * unat b < unat a + unat b"
    by (rule round_up_nat(3) [OF b])
  then have "unat ((a + b - 1) div b) * unat b < 2 ^ LENGTH(64)"
    using assms(2) d by simp
  then have "unat ((a + b - 1) div b * b) = unat ((a + b - 1) div b) * unat b"
    by (simp only: unat_mult_lem)
  then show ?thesis
    by (simp add: round_up_def ceil_div_def d)
qed


lemma alloc_block_ok:
  assumes g: "g \<noteq> 0" and bound: "unat sz + 2064 + unat g \<le> 2 ^ 64"
  shows "block_ok \<lparr>handle = h, device_idx = dev,
            block_size = round_up (round_up sz 16 + signal_pad_size) g, buffer_size = sz,
            signal_pad_offset = round_up sz 16, group_name = grp, symm_mem = sm\<rparr>
         \<and> unat g dvd unat (round_up (round_up sz 16 + signal_pad_size) g)"
proof -
  let ?o = "unat (round_up sz 16)"
  have "unat sz + unat (16 :: size_t) \<le> 2 ^ 64"
    using bound by simp
  then have "?o = (unat sz + unat (16 :: size_t) - 1) div unat (16 :: size_t) * unat (16 :: size_t)"
    by (intro round_up_unat) simp_all
  then have o: "?o = (unat sz + 16 - 1) div 16 * 16"
    by simp
  have o1: "16 dvd ?o" "unat sz \<le> ?o" "?o < unat sz + 16"
    unfolding o by (rule round_up_nat; simp)+
  have "?o + unat signal_pad_size < 2 ^ LENGTH(64)"
    using o1(3) bound by (simp add: signal_pad_size_def)
  then have u: "unat (round_up sz 16 + signal_pad_size) = ?o + 2048"
    by (simp add: unat_add_lem [THEN iffD1] signal_pad_size_def)
  have gpos: "0 < unat g"
    using g by (simp add: unat_gt_0)
  have "unat (round_up sz 16 + signal_pad_size) + unat g \<le> 2 ^ 64"
    using u o1(3) bound by simp
  then have r: "unat (round_up (round_up sz 16 + signal_pad_size) g)
               = (?o + 2048 + unat g - 1) div unat g * unat g"
    using round_up_unat [OF g, of "round_up sz 16 + signal_pad_size"] u by simp
  have r1: "?o + 2048 \<le> unat (round_up (round_up sz 16 + signal_pad_size) g)"
    unfolding r by (rule round_up_nat(2) [OF gpos])
  have r2: "unat g dvd unat (round_up (round_up sz 16 + signal_pad_size) g)"
    unfolding r by simp
  have "unat sz + unat signal_pad_size \<le> unat (round_up (round_up sz 16 + signal_pad_size) g)"
    using o1(2) r1 by (simp add: signal_pad_size_def)
  then show ?thesis
    using o1 r2 by (simp add: block_ok_def)
qed

lemma emplace_fresh: "m k = None \<Longrightarrow> emplace m k v = m(k \<mapsto> v)"
  by (simp add: emplace_def)

lemma emplace_keeps: "m q = Some b \<Longrightarrow> emplace m k v q = Some b"
  by (auto simp: emplace_def split: option.splits)

lemma emplace_other: "q \<noteq> k \<Longrightarrow> emplace m k v q = m q"
  by (auto simp: emplace_def split: option.splits)


section \<open>The registry under the operations\<close>

lemma destroy_registry:
  "destroy_symmetric_memory env sm s = (r, s') \<Longrightarrow> extends_by (\<lambda>_. True) s s'"
  using calls_only_destroy by (simp add: calls_only_def)

lemma release_reference_registry:
  assumes "release_reference env obj s = (r, s')"
  shows "ptr_to_block s' = ptr_to_block s"
  using assms
  by (auto simp: release_reference_def Let_def extends_by_def
      split: if_splits option.splits dest!: destroy_registry)

lemma free_registry:
  assumes "free env q s = (r, s')"
  shows "ptr_to_block s' = ptr_to_block s \<or> ptr_to_block s' = (ptr_to_block s)(q := None)"
proof (cases r)
  case (Inl e)
  then show ?thesis
    using assms
    by (auto simp: free_def find_block_def fail_simps run_simps
        split: option.splits if_splits dest!: release_reference_registry)
next
  case (Inr u)
  then show ?thesis
    using assms
    by (auto simp: free_def find_block_def run_simps
        split: option.splits if_splits dest!: release_reference_registry)
qed

lemma rendezvous_exchange_registry:
  "rendezvous_exchange env p b s = (r, s') \<Longrightarrow> extends_by (\<lambda>e. \<not> unmaps_or_releases e) s s'"
  using calls_only_rendezvous_exchange by (simp add: calls_only_def)

lemma rendezvous_registry:
  assumes "rendezvous env q s = (r, s')"
  shows "ptr_to_block s' = ptr_to_block s
     \<or> (\<exists>b obj. ptr_to_block s q = Some b \<and> symm_mem b = None
           \<and> ptr_to_block s' = (ptr_to_block s)(q \<mapsto> b\<lparr>symm_mem := Some obj\<rparr>))"
  using assms
  by (auto simp: rendezvous_def find_block_def extends_by_def
      split: option.splits prod.splits sum.splits dest!: rendezvous_exchange_registry)

lemma alloc_registry:
  assumes "alloc env sz dev grp s = (r, s')"
  shows "ptr_to_block s' = ptr_to_block s
     \<or> (\<exists>p h. r = Inr p \<and> ptr_to_block s p = None
           \<and> env_value64 env (trace s) (Get_allocation_granularity dev) \<noteq> 0
           \<and> ptr_to_block s' = (ptr_to_block s)(p \<mapsto>
                 \<lparr>handle = h, device_idx = dev,
                  block_size = round_up (round_up sz 16 + signal_pad_size)
                      (env_value64 env (trace s) (Get_allocation_granularity dev)),
                  buffer_size = sz, signal_pad_offset = round_up sz 16, group_name = grp,
                  symm_mem = None\<rparr>))"
proof (cases r)
  case (Inl e)
  then show ?thesis
    using assms alloc_Inl [of env sz dev grp s e s'] by (simp add: extends_by_def)
next
  case (Inr p)
  show ?thesis
  proof (cases "ptr_to_block s p")
    case None
    then show ?thesis
      using assms Inr alloc_Inr [of env sz dev grp s p s'] by (auto simp: emplace_fresh)
  next
    case (Some b)
    then have "emplace (ptr_to_block s) p v = ptr_to_block s" for v
      by (simp add: emplace_def)
    then show ?thesis
      using assms Inr alloc_Inr [of env sz dev grp s p s'] by simp
  qed
qed


section \<open>\<open>alloc\<close> and \<open>get_alloc_size\<close>\<close>

lemma step_keeps_buffer_size:
  assumes "get_alloc_size s p = Inr sz" "ptr_to_block (step env x s) p \<noteq> None"
  shows "get_alloc_size (step env x s) p = Inr sz"
proof -
  obtain b where b: "ptr_to_block s p = Some b" "buffer_size b = sz"
    using assms(1) by (auto simp: get_alloc_size_def find_block_def split: option.splits)
  show ?thesis
  proof (cases x)
    case (Alloc sz' dev grp)
    then show ?thesis
      using alloc_registry [of env sz' dev grp s "fst (alloc env sz' dev grp s)" "step env x s"] b
      by (auto simp: get_alloc_size_def find_block_def)
  next
    case (Free q)
    then show ?thesis
      using free_registry [of env q s "fst (free env q s)" "step env x s"] b assms(2)
      by (auto simp: get_alloc_size_def find_block_def split: if_splits)
  next
    case (Rendezvous q)
    then show ?thesis
      using rendezvous_registry [of env q s "fst (rendezvous env q s)" "step env x s"] b
      by (auto simp: get_alloc_size_def find_block_def)
  next
    case (Drop_reference obj)
    then show ?thesis
      using release_reference_registry [of env obj s "fst (release_reference env obj s)" "step env x s"] b
      by (auto simp: get_alloc_size_def find_block_def)
  qed
qed

lemma run_keeps_buffer_size:
  "get_alloc_size s p = Inr sz \<Longrightarrow> present_throughout env p ops s
     \<Longrightarrow> get_alloc_size (run env ops s) p = Inr sz"
proof (induction ops arbitrary: s)
  case Nil
  then show ?case by simp
next
  case (Cons x xs)
  have "get_alloc_size (step env x s) p = Inr sz"
    using Cons.prems by (intro step_keeps_buffer_size) simp_all
  then show ?case
    using Cons.IH [of "step env x s"] Cons.prems(2) by simp
qed

text \<open>
  C7. \<open>get_alloc_size\<close> fails on a pointer that is not in the registry. For a pointer
  that \<open>alloc(S, device, group)\<close> returned (an address that was not in the registry
  before, as the driver reserves a new range for every block), \<open>get_alloc_size\<close>
  returns \<open>S\<close>, and it keeps returning \<open>S\<close> after any operations on the allocator
  as long as the pointer is in the registry after each of them.
\<close>

theorem get_alloc_size_returns_requested_size:
  "(ptr_to_block s p = None \<longrightarrow> get_alloc_size s p = Inl (Check_failed Get_alloc_size_unknown))
   \<and> (alloc env sz dev grp s = (Inr p, s1) \<and> ptr_to_block s p = None
        \<longrightarrow> get_alloc_size s1 p = Inr sz)
   \<and> (alloc env sz dev grp s = (Inr p, s1) \<and> ptr_to_block s p = None
        \<and> present_throughout env p ops s1
        \<longrightarrow> get_alloc_size (run env ops s1) p = Inr sz)"
proof -
  have a: "get_alloc_size s1 p = Inr sz"
    if "alloc env sz dev grp s = (Inr p, s1)" "ptr_to_block s p = None"
    using alloc_Inr [OF that(1)] that(2)
    by (simp add: get_alloc_size_def find_block_def emplace_fresh)
  show ?thesis
    using a run_keeps_buffer_size [of s1 p sz env ops]
    by (auto simp: get_alloc_size_def find_block_def)
qed


section \<open>The example run\<close>

lemmas action_defs = and_then_def succeed_def fail_def lift_def driver_call_def
  driver_call32_def system_call_def store_wait_def store_get_def

lemma example_env_simps:
  "env_status example_env h e = 0"
  "env_value64 example_env h e = (case e of Get_allocation_granularity _ \<Rightarrow> 2097152
                              | _ \<Rightarrow> 2097152 + 2097152 * of_nat (length h))"
  "env_value32 example_env h e = 3 + of_nat (length h)"
  "env_bytes example_env h e = (if list_ex is_store_get h then le_bytes 4 (0 :: c_int)
                           else to_bytes request_layout (\<lambda>i. 255) example_peer_request)"
  "env_padding example_env h = (\<lambda>i. 204)"
  "env_wait_returns example_env h e = True"
  "is_finalizing example_env h = False"
  "get_group_info example_env g = \<lparr>gi_rank = 0, gi_world_size = 2\<rparr>"
  by (simp_all add: example_env_def)

lemma example_alloc_state:
  "alloc example_env 4096 0 ''g'' initial_state = (Inr 6291456, example_allocated)"
  by (simp add: alloc_def map_block_def action_defs example_env_simps initial_state_def
      example_allocated_def example_block_def round_up_def ceil_div_def signal_pad_size_def
      emplace_def Let_def)


lemma peer_keys_example:
  "peer_key 0 0 = ''CUDASymmetricMemory/0/0''" "peer_key 0 1 = ''CUDASymmetricMemory/0/1''"
  "peer_key 1 0 = ''CUDASymmetricMemory/1/0''" "peer_key 1 1 = ''CUDASymmetricMemory/1/1''"
  "peer_key 0 (Suc 0) = ''CUDASymmetricMemory/0/1''"
  "peer_key 1 (Suc 0) = ''CUDASymmetricMemory/1/1''"
  by (simp_all add: peer_key_def store_comm_prefix_def decimal.simps digit_def)

lemma upt_2: "[0..<2] = [0, 1]" "[1..<2] = [1]" "[Suc 0..<2] = [1]"
  by (simp_all add: upt_rec)

lemma example_codec:
  "size_of request_layout = 40"
  "length (to_bytes request_layout (\<lambda>i. 255) example_peer_request) = 40"
  "from_bytes request_layout (to_bytes request_layout (\<lambda>i. 255) example_peer_request)
     = example_peer_request"
  "to_bytes request_layout (\<lambda>i. 204)
     \<lparr>req_device_idx = 0, req_block_fd = 10, req_pid = 11, req_block_size = 2097152,
      req_buffer_size = 4096, req_signal_pad_offset = 4096\<rparr>
   = [0, 0, 0, 0, 10, 0, 0, 0, 11, 0, 0, 0, 204, 204, 204, 204, 0, 0, 32, 0, 0, 0, 0,
      0, 0, 16, 0, 0, 0, 0, 0, 0, 0, 16, 0, 0, 0, 0, 0, 0]"
  "size_of int_layout = 4"
  "to_bytes int_layout (\<lambda>i. 204) 0 = [0, 0, 0, 0]"
  "length (le_bytes 4 (0 :: c_int)) = 4"
  by code_simp+

lemma example_peer_fields:
  "req_device_idx example_peer_request = 1" "req_block_fd example_peer_request = 9"
  "req_pid example_peer_request = 4242" "req_block_size example_peer_request = 2097152"
  "req_buffer_size example_peer_request = 4096"
  "req_signal_pad_offset example_peer_request = 4096"
  by (simp_all add: example_peer_request_def)

lemma example_rendezvous_state:
  "rendezvous example_env 6291456 example_allocated = (Inr 0, example_rendezvoused)"
  by (simp add: rendezvous_def find_block_def rendezvous_exchange_def gather_requests_def
      map_peers_def store_all_gather_def store_barrier_def validate_rendezvous_requests_def
      import_remote_fd_def map_block_def construct_symmetric_memory_def
      example_codec example_peer_fields
      action_defs example_env_simps example_allocated_def example_rendezvoused_def
      example_block_def example_object_def vector_at_def vector_at_nat_def upt_2
      peer_keys_example Let_def)

section \<open>Witnesses on the example run\<close>

lemma example_free_unknown:
  "free example_env 1 example_rendezvoused = (Inr (), example_rendezvoused)"
  by (simp add: free_def find_block_def example_rendezvoused_def)

theorem get_alloc_size_returns_requested_size_witness:
  "get_alloc_size initial_state 6291456 = Inl (Check_failed Get_alloc_size_unknown)
   \<and> get_alloc_size example_allocated 6291456 = Inr 4096
   \<and> present_throughout example_env 6291456 [Rendezvous 6291456, Free 1] example_allocated
   \<and> get_alloc_size (run example_env [Rendezvous 6291456, Free 1] example_allocated) 6291456
       = Inr 4096"
proof -
  have n: "ptr_to_block initial_state 6291456 = None"
    by (simp add: initial_state_def)
  have p: "present_throughout example_env 6291456 [Rendezvous 6291456, Free 1] example_allocated"
    by (simp add: example_rendezvous_state example_free_unknown)
      (simp add: example_rendezvoused_def)
  show ?thesis
    using get_alloc_size_returns_requested_size
            [of initial_state 6291456 example_env 4096 0 "''g''" example_allocated
                "[Rendezvous 6291456, Free 1]"]
          n p example_alloc_state
    by simp
qed

section \<open>The invariants of a block\<close>

lemma registry_ok_step:
  assumes ok: "registry_ok s"
    and range: "case x of
        Alloc sz dev grp \<Rightarrow>
          unat sz + 2064 + unat (env_value64 env (trace s) (Get_allocation_granularity dev)) \<le> 2 ^ 64
      | _ \<Rightarrow> True"
  shows "registry_ok (step env x s)"
proof (cases x)
  case (Alloc sz dev grp)
  have b: "unat sz + 2064 + unat (env_value64 env (trace s) (Get_allocation_granularity dev)) \<le> 2 ^ 64"
    using range Alloc by simp
  show ?thesis
    using alloc_registry [of env sz dev grp s "fst (alloc env sz dev grp s)" "step env x s"]
      Alloc ok alloc_block_ok [OF _ b]
    by (auto simp: registry_ok_def split: if_splits)
next
  case (Free q)
  then show ?thesis
    using free_registry [of env q s "fst (free env q s)" "step env x s"] ok
    by (auto simp: registry_ok_def split: if_splits)
next
  case (Rendezvous q)
  have "block_ok (b\<lparr>symm_mem := v\<rparr>) = block_ok b" for b v
    by (simp add: block_ok_def)
  then show ?thesis
    using rendezvous_registry [of env q s "fst (rendezvous env q s)" "step env x s"] ok Rendezvous
    by (auto simp: registry_ok_def split: if_splits)
next
  case (Drop_reference obj)
  then show ?thesis
    using release_reference_registry [of env obj s "fst (release_reference env obj s)" "step env x s"] ok
    by (auto simp: registry_ok_def)
qed

text \<open>
  C5, as amended. For a payload size \<open>S\<close> with \<open>S + 2064 + granularity \<le> 2 ^ 64\<close> (no
  \<open>size_t\<close> computation of \<open>alloc\<close> wraps around), the block that \<open>alloc(S, device,
  group)\<close> puts in the registry under the fresh pointer it returns has
  \<open>buffer_size = S\<close>, \<open>signal_pad_offset = round_up(S, 16)\<close>, which is the least
  multiple of 16 that is at least \<open>S\<close>, \<open>block_size \<ge> buffer_size + signal_pad_size\<close>,
  and a block size that is a multiple of the granularity the driver recommended. Every
  operation on the allocator keeps these invariants for every block of the registry,
  when the sizes allocated are in that range.
\<close>

theorem alloc_block_invariants:
  "(alloc env sz dev grp s = (Inr p, s') \<and> ptr_to_block s p = None
      \<and> unat sz + 2064 + unat (env_value64 env (trace s) (Get_allocation_granularity dev)) \<le> 2 ^ 64
    \<longrightarrow> (\<exists>b. ptr_to_block s' p = Some b \<and> buffer_size b = sz
            \<and> signal_pad_offset b = round_up sz 16 \<and> block_ok b
            \<and> unat (env_value64 env (trace s) (Get_allocation_granularity dev))
                  dvd unat (block_size b)))
   \<and> (registry_ok s
       \<and> (case x of
            Alloc sz dev grp \<Rightarrow>
              unat sz + 2064 + unat (env_value64 env (trace s) (Get_allocation_granularity dev))
                \<le> 2 ^ 64
          | _ \<Rightarrow> True)
    \<longrightarrow> registry_ok (step env x s))"
proof -
  have a: "\<exists>b. ptr_to_block s' p = Some b \<and> buffer_size b = sz
            \<and> signal_pad_offset b = round_up sz 16 \<and> block_ok b
            \<and> unat (env_value64 env (trace s) (Get_allocation_granularity dev))
                  dvd unat (block_size b)"
    if r: "alloc env sz dev grp s = (Inr p, s')" and n: "ptr_to_block s p = None"
      and b: "unat sz + 2064 + unat (env_value64 env (trace s) (Get_allocation_granularity dev)) \<le> 2 ^ 64"
  proof -
    have g: "env_value64 env (trace s) (Get_allocation_granularity dev) \<noteq> 0"
      using alloc_Inr [OF r] by simp
    show ?thesis
      using alloc_Inr [OF r] n alloc_block_ok [OF g b] by (simp add: emplace_fresh)
  qed
  show ?thesis
    using a registry_ok_step [where s = s and x = x and env = env] by blast
qed


theorem alloc_block_invariants_witness:
  "alloc example_env 4096 0 ''g'' initial_state = (Inr 6291456, example_allocated)
   \<and> ptr_to_block example_allocated 6291456 = Some example_block
   \<and> buffer_size example_block = 4096
   \<and> signal_pad_offset example_block = 4096
   \<and> block_size example_block = 2097152
   \<and> block_ok example_block
   \<and> registry_ok initial_state
   \<and> registry_ok (step example_env (Alloc 4096 0 ''g'') initial_state)"
proof -
  have n: "ptr_to_block initial_state 6291456 = None" "registry_ok initial_state"
    by (simp_all add: initial_state_def registry_ok_def)
  have b: "unat (4096 :: size_t) + 2064
             + unat (env_value64 example_env (trace initial_state) (Get_allocation_granularity 0))
           \<le> 2 ^ 64"
    by (simp add: example_env_simps)
  have e: "ptr_to_block example_allocated 6291456 = Some example_block"
    by (simp add: example_allocated_def)
  show ?thesis
    using alloc_block_invariants
            [of example_env 4096 0 "''g''" initial_state 6291456 example_allocated
                "Alloc 4096 0 ''g''"]
          n b e example_alloc_state
    by (simp add: example_block_def)
qed

text \<open>
  The claim as stated fails for the largest payload size: \<open>round_up(2 ^ 64 - 1, 16)\<close>
  wraps around to 0, the block is 2 MiB, and \<open>alloc\<close> registers it with a payload size
  of \<open>2 ^ 64 - 1\<close> bytes.
\<close>

theorem alloc_of_largest_size_breaks_invariants:
  "alloc example_env 18446744073709551615 0 ''g'' initial_state
     = (Inr 6291456,
        example_allocated
          \<lparr>ptr_to_block :=
             [6291456 \<mapsto> example_block\<lparr>buffer_size := 18446744073709551615,
                                         signal_pad_offset := 0\<rparr>]\<rparr>)
   \<and> \<not> block_ok (example_block\<lparr>buffer_size := 18446744073709551615, signal_pad_offset := 0\<rparr>)
   \<and> unat (block_size example_block) < unat (18446744073709551615 :: size_t) + unat signal_pad_size"
  by (simp add: alloc_def map_block_def action_defs example_env_simps initial_state_def
      example_allocated_def example_block_def round_up_def ceil_div_def signal_pad_size_def
      emplace_def Let_def block_ok_def)


section \<open>\<open>free\<close>\<close>

lemma all_succeed_append:
  "all_succeed env h (xs @ ys) \<longleftrightarrow> all_succeed env h xs \<and> all_succeed env (h @ xs) ys"
  by (induction xs arbitrary: h) simp_all

lemma unmap_and_release_succeeds:
  assumes "\<forall>r\<in>set rs. r < length (sm_buffers sm) \<and> r < length (sm_handles sm)"
    and "all_succeed env (trace s) (unmap_release_calls sm rs)"
  shows "unmap_and_release env sm rs s
       = (Inr (), s\<lparr>trace := trace s @ unmap_release_calls sm rs\<rparr>)"
  using assms
proof (induction rs arbitrary: s)
  case Nil
  then show ?case
    by (simp add: unmap_release_calls_def succeed_def)
next
  case (Cons r rs)
  let ?u = "Mem_unmap (sm_buffers sm ! r) (sm_block_size sm)"
  let ?l = "Mem_release (sm_handles sm ! r)"
  let ?s2 = "s\<lparr>trace := trace s @ [?u, ?l]\<rparr>"
  have c: "unmap_release_calls sm (r # rs) = ?u # ?l # unmap_release_calls sm rs"
    by (simp add: unmap_release_calls_def)
  have ok: "env_status env (trace s) ?u = 0" "env_status env (trace s @ [?u]) ?l = 0"
    "all_succeed env (trace ?s2) (unmap_release_calls sm rs)"
    using Cons.prems(2) unfolding c by simp_all
  have r: "r < length (sm_buffers sm)" "r < length (sm_handles sm)"
    using Cons.prems(1) by simp_all
  have "unmap_and_release env sm (r # rs) s = unmap_and_release env sm rs ?s2"
    using ok(1,2) r
    by (simp add: vector_at_nat_def and_then_def lift_def driver_call_def)
  also have "\<dots> = (Inr (), ?s2\<lparr>trace := trace ?s2 @ unmap_release_calls sm rs\<rparr>)"
    using Cons.prems(1) ok(3) by (intro Cons.IH) simp_all
  finally show ?case
    unfolding c by simp
qed

lemma destroy_succeeds:
  assumes "\<not> is_finalizing env (trace s)"
    and "nat (sint (sm_world_size sm)) \<le> length (sm_buffers sm)"
    and "nat (sint (sm_world_size sm)) \<le> length (sm_handles sm)"
    and "all_succeed env (trace s) (destructor_checked_calls sm)"
  shows "destroy_symmetric_memory env sm s
       = (Inr (),
          s\<lparr>trace := trace s @ destructor_checked_calls sm
               @ [Raw_delete (sm_buffers_dev sm), Raw_delete (sm_signal_pads_dev sm)]\<rparr>)"
proof -
  let ?g = "Device_guard (sm_local_device_idx sm)"
  let ?rs = "[0..<nat (sint (sm_world_size sm))]"
  let ?s2 = "s\<lparr>trace := trace s @ [?g, Device_synchronize]\<rparr>"
  have ok: "env_status env (trace s) ?g = 0" "env_status env (trace s @ [?g]) Device_synchronize = 0"
    "all_succeed env (trace ?s2) (unmap_release_calls sm ?rs)"
    using assms(4) by (simp_all add: destructor_checked_calls_def)
  have "\<forall>r\<in>set ?rs. r < length (sm_buffers sm) \<and> r < length (sm_handles sm)"
    using assms(2,3) by auto
  then have u: "unmap_and_release env sm ?rs ?s2
       = (Inr (), ?s2\<lparr>trace := trace ?s2 @ unmap_release_calls sm ?rs\<rparr>)"
    using ok(3) by (rule unmap_and_release_succeeds)
  show ?thesis
    using assms(1) ok(1,2) u
    by (simp add: destroy_symmetric_memory_def and_then_def driver_call_def system_call_def
        succeed_def destructor_checked_calls_def)
qed

lemma import_peers_length:
  "import_peers env b p rank reqs rs s = (Inr xs, s') \<Longrightarrow> length xs = length rs"
proof (induction rs arbitrary: s xs s')
  case Nil
  then show ?case
    by (simp add: succeed_def)
next
  case (Cons r rs)
  show ?case
  proof (cases "int r = sint rank")
    case True
    then obtain ys s1 where "import_peers env b p rank reqs rs s = (Inr ys, s1)"
        "xs = (handle b, p, p + signal_pad_offset b) # ys"
      using Cons.prems by (auto simp: run_simps)
    then show ?thesis
      using Cons.IH by auto
  next
    case False
    then obtain ys s1 s2 h buf where "import_peers env b p rank reqs rs s1 = (Inr ys, s2)"
        "xs = (h, buf, buf + signal_pad_offset b) # ys"
      using Cons.prems by (auto simp: run_simps import_remote_fd_def)
    then show ?thesis
      using Cons.IH by auto
  qed
qed

lemma map_peers_tables:
  assumes "map_peers env p b block_fd reqs s = (Inr sm, s')"
  shows "length (sm_buffers sm) = nat (sint (sm_world_size sm))
     \<and> length (sm_handles sm) = nat (sint (sm_world_size sm))"
proof -
  let ?gi = "get_group_info env (group_name b)"
  obtain mapped s1 s2 where m: "import_peers env b p (gi_rank ?gi) reqs
      [0..<nat (sint (gi_world_size ?gi))] s1 = (Inr mapped, s2)"
    and sm: "sm_buffers sm = map (\<lambda>t. fst (snd t)) mapped" "sm_handles sm = map fst mapped"
      "sm_world_size sm = gi_world_size ?gi"
    using assms
    by (auto simp: map_peers_def Let_def run_simps construct_symmetric_memory_def
        store_barrier_def)
  show ?thesis
    using import_peers_length [OF m] sm by simp
qed

lemma rendezvous_builds_tables:
  assumes "ptr_to_block s p = Some b" "symm_mem b = None"
    and "rendezvous env p s = (Inr obj, s')"
  shows "\<exists>sm. symm_objects s' obj = Some sm
     \<and> length (sm_buffers sm) = nat (sint (sm_world_size sm))
     \<and> length (sm_handles sm) = nat (sint (sm_world_size sm))"
proof -
  obtain sm s1 where x: "rendezvous_exchange env p b s = (Inr sm, s1)"
    and o: "obj = next_object s1" "symm_objects s' = (symm_objects s1)(next_object s1 \<mapsto> sm)"
    using assms
    by (auto simp: rendezvous_def find_block_def split: prod.splits sum.splits)
  obtain fd reqs s0 where "map_peers env p b fd reqs s0 = (Inr sm, s1)"
    using x by (auto simp: rendezvous_exchange_def run_simps)
  then show ?thesis
    using map_peers_tables o by simp
qed

text \<open>
  C6, as amended. \<open>free\<close> is a no-op on a pointer that is not in the registry and while
  the process is finalizing. Otherwise, for a block that was never rendezvoused, it
  unmaps the block and releases the handle (where the driver reports success for both)
  and removes the entry, so that \<open>get_alloc_size\<close> fails on the pointer afterwards. For
  a block whose ownership went to a symmetric memory object, \<open>free\<close> removes the entry
  and drops the block's reference to the object: while another reference is held, no
  call is made and the object stays; when the block held the last reference, the object
  is destroyed inside \<open>free\<close>, and where the driver reports success for each checked
  call of the destructor, the calls of \<open>free\<close> are the device guard, the
  synchronization, for each rank of the group the unmapping of its buffer and the
  release of its handle, and the two \<open>raw_delete\<close>. This is for an object whose tables
  of buffers and handles hold an entry for each rank, as every object that \<open>rendezvous\<close>
  builds does.
\<close>

theorem free_behaviour:
  "(ptr_to_block s p = None \<or> is_finalizing env (trace s) \<longrightarrow> free env p s = (Inr (), s))
   \<and> (ptr_to_block s p = Some b \<and> symm_mem b = None \<and> \<not> is_finalizing env (trace s)
        \<and> env_status env (trace s) (Mem_unmap p (block_size b)) = 0
        \<and> env_status env (trace s @ [Mem_unmap p (block_size b)]) (Mem_release (handle b)) = 0
      \<longrightarrow> free env p s =
            (Inr (),
             s\<lparr>trace := trace s @ [Mem_unmap p (block_size b), Mem_release (handle b)],
               ptr_to_block := (ptr_to_block s)(p := None)\<rparr>)
          \<and> get_alloc_size (snd (free env p s)) p = Inl (Check_failed Get_alloc_size_unknown))
   \<and> (ptr_to_block s p = Some b \<and> symm_mem b = Some obj \<and> \<not> is_finalizing env (trace s)
        \<and> 1 < refcount s obj
      \<longrightarrow> free env p s =
            (Inr (),
             s\<lparr>ptr_to_block := (ptr_to_block s)(p := None),
               refcount := (refcount s)(obj := refcount s obj - 1)\<rparr>)
          \<and> get_alloc_size (snd (free env p s)) p = Inl (Check_failed Get_alloc_size_unknown))
   \<and> (ptr_to_block s p = Some b \<and> symm_mem b = Some obj \<and> \<not> is_finalizing env (trace s)
        \<and> refcount s obj \<le> 1 \<and> symm_objects s obj = Some sm
        \<and> nat (sint (sm_world_size sm)) \<le> length (sm_buffers sm)
        \<and> nat (sint (sm_world_size sm)) \<le> length (sm_handles sm)
        \<and> all_succeed env (trace s) (destructor_checked_calls sm)
      \<longrightarrow> free env p s =
            (Inr (),
             s\<lparr>ptr_to_block := (ptr_to_block s)(p := None),
               refcount := (refcount s)(obj := 0),
               symm_objects := (symm_objects s)(obj := None),
               trace := trace s
                 @ [Device_guard (sm_local_device_idx sm), Device_synchronize]
                 @ concat (map (\<lambda>r. [Mem_unmap (sm_buffers sm ! r) (sm_block_size sm),
                                      Mem_release (sm_handles sm ! r)])
                            [0..<nat (sint (sm_world_size sm))])
                 @ [Raw_delete (sm_buffers_dev sm), Raw_delete (sm_signal_pads_dev sm)]\<rparr>)
          \<and> get_alloc_size (snd (free env p s)) p = Inl (Check_failed Get_alloc_size_unknown))
   \<and> (ptr_to_block s p = Some b \<and> symm_mem b = None \<and> rendezvous env p s = (Inr obj, s')
      \<longrightarrow> (\<exists>built. symm_objects s' obj = Some built
            \<and> length (sm_buffers built) = nat (sint (sm_world_size built))
            \<and> length (sm_handles built) = nat (sint (sm_world_size built))))"
proof -
  have noop: "free env p s = (Inr (), s)"
    if "ptr_to_block s p = None \<or> is_finalizing env (trace s)"
    using that by (auto simp: free_def find_block_def split: option.splits)
  have never: "free env p s =
            (Inr (),
             s\<lparr>trace := trace s @ [Mem_unmap p (block_size b), Mem_release (handle b)],
               ptr_to_block := (ptr_to_block s)(p := None)\<rparr>)"
    if "ptr_to_block s p = Some b" "symm_mem b = None" "\<not> is_finalizing env (trace s)"
      "env_status env (trace s) (Mem_unmap p (block_size b)) = 0"
      "env_status env (trace s @ [Mem_unmap p (block_size b)]) (Mem_release (handle b)) = 0"
    using that by (simp add: free_def find_block_def action_defs)
  have held: "free env p s =
            (Inr (),
             s\<lparr>ptr_to_block := (ptr_to_block s)(p := None),
               refcount := (refcount s)(obj := refcount s obj - 1)\<rparr>)"
    if "ptr_to_block s p = Some b" "symm_mem b = Some obj" "\<not> is_finalizing env (trace s)"
      "1 < refcount s obj"
    using that by (simp add: free_def find_block_def action_defs release_reference_def Let_def)
  have last: "free env p s =
            (Inr (),
             s\<lparr>ptr_to_block := (ptr_to_block s)(p := None),
               refcount := (refcount s)(obj := 0),
               symm_objects := (symm_objects s)(obj := None),
               trace := trace s
                 @ [Device_guard (sm_local_device_idx sm), Device_synchronize]
                 @ concat (map (\<lambda>r. [Mem_unmap (sm_buffers sm ! r) (sm_block_size sm),
                                      Mem_release (sm_handles sm ! r)])
                            [0..<nat (sint (sm_world_size sm))])
                 @ [Raw_delete (sm_buffers_dev sm), Raw_delete (sm_signal_pads_dev sm)]\<rparr>)"
    if h: "ptr_to_block s p = Some b" "symm_mem b = Some obj" "\<not> is_finalizing env (trace s)"
      "refcount s obj \<le> 1" "symm_objects s obj = Some sm"
      and len: "nat (sint (sm_world_size sm)) \<le> length (sm_buffers sm)"
        "nat (sint (sm_world_size sm)) \<le> length (sm_handles sm)"
      and ok: "all_succeed env (trace s) (destructor_checked_calls sm)"
  proof -
    let ?s1 = "s\<lparr>ptr_to_block := (ptr_to_block s)(p := None),
                 refcount := (refcount s)(obj := 0),
                 symm_objects := (symm_objects s)(obj := None)\<rparr>"
    have "free env p s = destroy_symmetric_memory env sm ?s1"
      using h by (simp add: free_def find_block_def action_defs release_reference_def Let_def)
    moreover have "destroy_symmetric_memory env sm ?s1
       = (Inr (),
          ?s1\<lparr>trace := trace ?s1 @ destructor_checked_calls sm
               @ [Raw_delete (sm_buffers_dev sm), Raw_delete (sm_signal_pads_dev sm)]\<rparr>)"
      using h(3) len ok by (intro destroy_succeeds) simp_all
    ultimately show ?thesis
      by (simp add: destructor_checked_calls_def unmap_release_calls_def)
  qed
  have built: "\<exists>built. symm_objects s' obj = Some built
            \<and> length (sm_buffers built) = nat (sint (sm_world_size built))
            \<and> length (sm_handles built) = nat (sint (sm_world_size built))"
    if "ptr_to_block s p = Some b" "symm_mem b = None" "rendezvous env p s = (Inr obj, s')"
    using that by (rule rendezvous_builds_tables)
  show ?thesis
    using noop never held last built
    by (simp add: get_alloc_size_def find_block_def)
qed


lemma example_drop_reference:
  "release_reference example_env 0 example_rendezvoused
     = (Inr (), example_rendezvoused\<lparr>refcount := (\<lambda>_. 0)(0 := 1)\<rparr>)"
  by (simp add: release_reference_def example_rendezvoused_def Let_def)

lemma example_free_last:
  "free example_env 6291456 (example_rendezvoused\<lparr>refcount := (\<lambda>_. 0)(0 := 1)\<rparr>)
     = (Inr (),
        example_rendezvoused
          \<lparr>ptr_to_block := (ptr_to_block example_rendezvoused)(6291456 := None),
            symm_objects := (symm_objects example_rendezvoused)(0 := None),
            refcount := (\<lambda>_. 0)(0 := 0),
            trace := trace example_rendezvoused @
              [Device_guard 0, Device_synchronize, Mem_unmap 6291456 2097152,
               Mem_release 4194304, Mem_unmap 33554432 2097152, Mem_release 31457280,
               Raw_delete 50331648, Raw_delete 52428800]\<rparr>)"
  by (simp add: free_def find_block_def release_reference_def destroy_symmetric_memory_def
      action_defs example_env_simps example_rendezvoused_def example_block_def
      example_object_def vector_at_nat_def upt_2 Let_def)

text \<open>
  The claim as stated fails where the caller has dropped the reference that
  \<open>rendezvous\<close> returned: \<open>free\<close> then destroys the symmetric memory object with the
  block, and the mappings of both ranks are unmapped and their handles released.
\<close>

theorem free_after_rendezvous_unmaps_with_last_reference:
  "run example_env [Alloc 4096 0 ''g'', Rendezvous 6291456] initial_state = example_rendezvoused
   \<and> ptr_to_block example_rendezvoused 6291456 = Some (example_block\<lparr>symm_mem := Some 0\<rparr>)
   \<and> calls_since example_rendezvoused
        (run example_env [Drop_reference 0, Free 6291456] example_rendezvoused)
       = [Device_guard 0, Device_synchronize, Mem_unmap 6291456 2097152, Mem_release 4194304,
          Mem_unmap 33554432 2097152, Mem_release 31457280, Raw_delete 50331648,
          Raw_delete 52428800]"
proof -
  have a: "run example_env [Alloc 4096 0 ''g'', Rendezvous 6291456] initial_state
             = example_rendezvoused"
    by (simp only: run.simps step.simps example_alloc_state example_rendezvous_state snd_conv)
  have b: "run example_env [Drop_reference 0, Free 6291456] example_rendezvoused
             = example_rendezvoused
                 \<lparr>ptr_to_block := (ptr_to_block example_rendezvoused)(6291456 := None),
                   symm_objects := (symm_objects example_rendezvoused)(0 := None),
                   refcount := (\<lambda>_. 0)(0 := 0),
                   trace := trace example_rendezvoused @
                     [Device_guard 0, Device_synchronize, Mem_unmap 6291456 2097152,
                      Mem_release 4194304, Mem_unmap 33554432 2097152, Mem_release 31457280,
                      Raw_delete 50331648, Raw_delete 52428800]\<rparr>"
    by (simp only: run.simps step.simps example_drop_reference example_free_last snd_conv)
  have c: "ptr_to_block example_rendezvoused 6291456 = Some (example_block\<lparr>symm_mem := Some 0\<rparr>)"
    by (simp add: example_rendezvoused_def)
  show ?thesis
    unfolding a b calls_since_def using c by simp
qed


theorem free_behaviour_witness:
  "free example_env 1 example_rendezvoused = (Inr (), example_rendezvoused)
   \<and> free (example_env\<lparr>is_finalizing := \<lambda>_. True\<rparr>) 6291456 example_allocated
       = (Inr (), example_allocated)
   \<and> free example_env 6291456 example_allocated
       = (Inr (),
          example_allocated
            \<lparr>trace := trace example_allocated @ [Mem_unmap 6291456 2097152, Mem_release 4194304],
              ptr_to_block := (ptr_to_block example_allocated)(6291456 := None)\<rparr>)
   \<and> get_alloc_size (snd (free example_env 6291456 example_allocated)) 6291456
       = Inl (Check_failed Get_alloc_size_unknown)
   \<and> free example_env 6291456 example_rendezvoused
       = (Inr (),
          example_rendezvoused
            \<lparr>ptr_to_block := (ptr_to_block example_rendezvoused)(6291456 := None),
              refcount := (refcount example_rendezvoused)(0 := 1)\<rparr>)
   \<and> free example_env 6291456 (example_rendezvoused\<lparr>refcount := (\<lambda>_. 0)(0 := 1)\<rparr>)
       = (Inr (),
          example_rendezvoused
            \<lparr>refcount := (\<lambda>_. 0)(0 := 1),
              ptr_to_block := (ptr_to_block example_rendezvoused)(6291456 := None),
              refcount := (\<lambda>_. 0)(0 := 0),
              symm_objects := (symm_objects example_rendezvoused)(0 := None),
              trace := trace example_rendezvoused @
                [Device_guard 0, Device_synchronize, Mem_unmap 6291456 2097152,
                 Mem_release 4194304, Mem_unmap 33554432 2097152, Mem_release 31457280,
                 Raw_delete 50331648, Raw_delete 52428800]\<rparr>)
   \<and> rendezvous example_env 6291456 example_allocated = (Inr 0, example_rendezvoused)
   \<and> symm_objects example_rendezvoused 0 = Some example_object
   \<and> length (sm_buffers example_object) = nat (sint (sm_world_size example_object))
   \<and> length (sm_handles example_object) = nat (sint (sm_world_size example_object))"
proof -
  have a: "ptr_to_block example_allocated 6291456 = Some example_block"
    "symm_mem example_block = None" "block_size example_block = 2097152"
    "handle example_block = 4194304"
    by (simp_all add: example_allocated_def example_block_def)
  have r: "ptr_to_block example_rendezvoused 6291456 = Some (example_block\<lparr>symm_mem := Some 0\<rparr>)"
    "ptr_to_block example_rendezvoused 1 = None"
    "refcount example_rendezvoused 0 = 2" "symm_objects example_rendezvoused 0 = Some example_object"
    by (simp_all add: example_rendezvoused_def)
  have o: "sm_world_size example_object = 2" "sm_buffers example_object = [6291456, 33554432]"
    "sm_handles example_object = [4194304, 31457280]" "sm_block_size example_object = 2097152"
    "sm_local_device_idx example_object = 0" "sm_buffers_dev example_object = 50331648"
    "sm_signal_pads_dev example_object = 52428800"
    by (simp_all add: example_object_def)
  have d: "all_succeed example_env h (destructor_checked_calls example_object)" for h
    by (simp add: destructor_checked_calls_def unmap_release_calls_def o upt_2 example_env_simps)
  have "\<exists>built. symm_objects example_rendezvoused 0 = Some built
            \<and> length (sm_buffers built) = nat (sint (sm_world_size built))
            \<and> length (sm_handles built) = nat (sint (sm_world_size built))"
    using free_behaviour
        [where s = example_allocated and p = 6291456 and b = example_block
           and env = example_env and obj = 0 and s' = example_rendezvoused,
         THEN conjunct2, THEN conjunct2, THEN conjunct2, THEN conjunct2]
      a(1,2) example_rendezvous_state
    by blast
  then have t: "length (sm_buffers example_object) = nat (sint (sm_world_size example_object))"
    "length (sm_handles example_object) = nat (sint (sm_world_size example_object))"
    using r(4) by simp_all
  have "free example_env 1 example_rendezvoused = (Inr (), example_rendezvoused)
   \<and> free (example_env\<lparr>is_finalizing := \<lambda>_. True\<rparr>) 6291456 example_allocated
       = (Inr (), example_allocated)
   \<and> free example_env 6291456 example_allocated
       = (Inr (),
          example_allocated
            \<lparr>trace := trace example_allocated @ [Mem_unmap 6291456 2097152, Mem_release 4194304],
              ptr_to_block := (ptr_to_block example_allocated)(6291456 := None)\<rparr>)
   \<and> get_alloc_size (snd (free example_env 6291456 example_allocated)) 6291456
       = Inl (Check_failed Get_alloc_size_unknown)
   \<and> free example_env 6291456 example_rendezvoused
       = (Inr (),
          example_rendezvoused
            \<lparr>ptr_to_block := (ptr_to_block example_rendezvoused)(6291456 := None),
              refcount := (refcount example_rendezvoused)(0 := 1)\<rparr>)
   \<and> free example_env 6291456 (example_rendezvoused\<lparr>refcount := (\<lambda>_. 0)(0 := 1)\<rparr>)
       = (Inr (),
          example_rendezvoused
            \<lparr>refcount := (\<lambda>_. 0)(0 := 1),
              ptr_to_block := (ptr_to_block example_rendezvoused)(6291456 := None),
              refcount := (\<lambda>_. 0)(0 := 0),
              symm_objects := (symm_objects example_rendezvoused)(0 := None),
              trace := trace example_rendezvoused @
                [Device_guard 0, Device_synchronize, Mem_unmap 6291456 2097152,
                 Mem_release 4194304, Mem_unmap 33554432 2097152, Mem_release 31457280,
                 Raw_delete 50331648, Raw_delete 52428800]\<rparr>)"
    using free_behaviour [of example_rendezvoused 1 example_env]
      free_behaviour [of example_allocated 6291456 "example_env\<lparr>is_finalizing := \<lambda>_. True\<rparr>"]
      free_behaviour [of example_allocated 6291456 example_env example_block]
      free_behaviour [of example_rendezvoused 6291456 example_env
                         "example_block\<lparr>symm_mem := Some 0\<rparr>" 0]
      free_behaviour [of "example_rendezvoused\<lparr>refcount := (\<lambda>_. 0)(0 := 1)\<rparr>" 6291456
                         example_env "example_block\<lparr>symm_mem := Some 0\<rparr>" 0 example_object]
      a r d
    by (simp add: example_env_simps get_alloc_size_def find_block_def o upt_2)
  then show ?thesis
    using t r(4) example_rendezvous_state by (elim conjE) (intro conjI; assumption)
qed


section \<open>Rendezvous\<close>

lemma rendezvous_cached:
  assumes "ptr_to_block s p = Some b" "symm_mem b = Some obj"
  shows "rendezvous env p s = (Inr obj, s\<lparr>refcount := (refcount s)(obj := refcount s obj + 1)\<rparr>)"
  using assms by (simp add: rendezvous_def find_block_def)

lemma rendezvous_caches:
  assumes "rendezvous env p s = (Inr obj, s1)"
  shows "\<exists>b. ptr_to_block s1 p = Some b \<and> symm_mem b = Some obj"
  using assms
  by (auto simp: rendezvous_def find_block_def split: option.splits prod.splits sum.splits)

lemma step_keeps_cached:
  assumes "ptr_to_block s p = Some b" "symm_mem b = Some obj"
    and "ptr_to_block (step env x s) p \<noteq> None"
  shows "\<exists>b'. ptr_to_block (step env x s) p = Some b' \<and> symm_mem b' = Some obj"
proof (cases x)
  case (Alloc sz dev grp)
  then show ?thesis
    using alloc_registry [of env sz dev grp s "fst (alloc env sz dev grp s)" "step env x s"] assms
    by (auto split: if_splits)
next
  case (Free q)
  then show ?thesis
    using free_registry [of env q s "fst (free env q s)" "step env x s"] assms
    by (auto split: if_splits)
next
  case (Rendezvous q)
  then show ?thesis
    using rendezvous_registry [of env q s "fst (rendezvous env q s)" "step env x s"] assms
    by (auto split: if_splits)
next
  case (Drop_reference o')
  then show ?thesis
    using release_reference_registry [of env o' s "fst (release_reference env o' s)" "step env x s"] assms
    by auto
qed

lemma run_keeps_cached:
  "ptr_to_block s p = Some b \<Longrightarrow> symm_mem b = Some obj \<Longrightarrow> present_throughout env p ops s
     \<Longrightarrow> \<exists>b'. ptr_to_block (run env ops s) p = Some b' \<and> symm_mem b' = Some obj"
proof (induction ops arbitrary: s b)
  case Nil
  then show ?case by simp
next
  case (Cons x xs)
  obtain b' where "ptr_to_block (step env x s) p = Some b'" "symm_mem b' = Some obj"
    using step_keeps_cached [OF Cons.prems(1,2), of env x] Cons.prems(3) by auto
  then show ?case
    using Cons.IH [of "step env x s" b'] Cons.prems(3) by simp
qed

text \<open>
  C3. A rendezvous that succeeds leaves the object it returns on the block. From then
  on, after any operations that keep the pointer in the registry (further rendezvous on
  it among them), rendezvous on the pointer returns the same object, in whatever
  environment: it makes no call, leaves the round counter, the registry and the objects
  as they are, and only counts one more reference to the object. Rendezvous on a pointer
  that is not in the registry fails.
\<close>

theorem rendezvous_idempotent:
  "(rendezvous env p s = (Inr obj, s1)
      \<longrightarrow> (\<exists>b. ptr_to_block s1 p = Some b \<and> symm_mem b = Some obj))
   \<and> (rendezvous env p s = (Inr obj, s1) \<and> present_throughout env p ops s1
      \<longrightarrow> rendezvous env' p (run env ops s1)
            = (Inr obj,
               (run env ops s1)
                 \<lparr>refcount := (refcount (run env ops s1))
                                (obj := refcount (run env ops s1) obj + 1)\<rparr>))
   \<and> (ptr_to_block s p = None
      \<longrightarrow> rendezvous env p s = (Inl (Check_failed Rendezvous_unknown), s))"
proof -
  have again: "rendezvous env' p (run env ops s1)
            = (Inr obj,
               (run env ops s1)
                 \<lparr>refcount := (refcount (run env ops s1))
                                (obj := refcount (run env ops s1) obj + 1)\<rparr>)"
    if r: "rendezvous env p s = (Inr obj, s1)" and pr: "present_throughout env p ops s1"
  proof -
    obtain b where "ptr_to_block s1 p = Some b" "symm_mem b = Some obj"
      using rendezvous_caches [OF r] by auto
    then obtain b' where "ptr_to_block (run env ops s1) p = Some b'" "symm_mem b' = Some obj"
      using run_keeps_cached [of s1 p b obj env ops] pr by auto
    then show ?thesis
      by (rule rendezvous_cached)
  qed
  have unknown: "rendezvous env p s = (Inl (Check_failed Rendezvous_unknown), s)"
    if "ptr_to_block s p = None"
    using that by (simp add: rendezvous_def find_block_def)
  show ?thesis
    using rendezvous_caches [of env p s obj s1] again unknown by blast
qed

lemma example_rendezvous_again:
  "rendezvous example_env 6291456 example_rendezvoused
     = (Inr 0, example_rendezvoused\<lparr>refcount := (refcount example_rendezvoused)(0 := 3)\<rparr>)"
  by (simp add: rendezvous_def find_block_def example_rendezvoused_def)

theorem rendezvous_idempotent_witness:
  "rendezvous example_env 6291456 example_allocated = (Inr 0, example_rendezvoused)
   \<and> ptr_to_block example_rendezvoused 6291456 = Some (example_block\<lparr>symm_mem := Some 0\<rparr>)
   \<and> present_throughout example_env 6291456 [Free 1, Rendezvous 6291456] example_rendezvoused
   \<and> rendezvous example_env 6291456
        (run example_env [Free 1, Rendezvous 6291456] example_rendezvoused)
       = (Inr 0, example_rendezvoused\<lparr>refcount := (refcount example_rendezvoused)(0 := 4)\<rparr>)
   \<and> rendezvous example_env 1 example_allocated
       = (Inl (Check_failed Rendezvous_unknown), example_allocated)"
proof -
  have r: "run example_env [Free 1, Rendezvous 6291456] example_rendezvoused
             = example_rendezvoused\<lparr>refcount := (refcount example_rendezvoused)(0 := 3)\<rparr>"
    by (simp only: run.simps step.simps example_free_unknown example_rendezvous_again snd_conv)
  have p: "present_throughout example_env 6291456 [Free 1, Rendezvous 6291456] example_rendezvoused"
    by (simp only: present_throughout.simps step.simps example_free_unknown
        example_rendezvous_again snd_conv)
      (simp add: example_rendezvoused_def)
  have c: "ptr_to_block example_rendezvoused 6291456 = Some (example_block\<lparr>symm_mem := Some 0\<rparr>)"
    "ptr_to_block example_allocated 1 = None"
    by (simp_all add: example_rendezvoused_def example_allocated_def)
  show ?thesis
    using rendezvous_idempotent
            [of example_env 6291456 example_allocated 0 example_rendezvoused
                "[Free 1, Rendezvous 6291456]" example_env, unfolded r]
          rendezvous_idempotent [of example_env 1 example_allocated]
          example_rendezvous_state p c
    unfolding r by simp
qed


section \<open>Validation inside rendezvous\<close>

lemma fails_only_succeed: "fails_only Q (succeed x)"
  by (simp add: fails_only_def succeed_def)

lemma fails_only_fail: "Q e \<Longrightarrow> fails_only Q (fail e)"
  by (simp add: fails_only_def fail_def)

lemma fails_only_lift_Inr: "fails_only Q (lift (Inr x))"
  by (simp add: fails_only_def lift_def)

lemma fails_only_and_then:
  assumes "fails_only Q m" "\<And>x. fails_only Q (f x)"
  shows "fails_only Q (and_then m f)"
  using assms unfolding fails_only_def and_then_Inl_iff by blast

lemma fails_only_driver_call: "(\<And>n. Q (Driver_error n)) \<Longrightarrow> fails_only Q (driver_call env e)"
  by (auto simp: fails_only_def driver_call_def split: if_splits)

lemma fails_only_driver_call32: "(\<And>n. Q (Driver_error n)) \<Longrightarrow> fails_only Q (driver_call32 env e)"
  by (auto simp: fails_only_def driver_call32_def split: if_splits)

lemma fails_only_system_call: "fails_only Q (system_call env e)"
  by (simp add: fails_only_def system_call_def)

lemma fails_only_store_wait: "Q Store_blocked \<Longrightarrow> fails_only Q (store_wait env k)"
  by (auto simp: fails_only_def store_wait_def split: if_splits)

lemma fails_only_store_get: "fails_only Q (store_get env k)"
  by (simp add: fails_only_def store_get_def)

lemma fails_only_vector_at: "Q (Undefined_behaviour Index_out_of_range) \<Longrightarrow> fails_only Q (lift (vector_at xs i))"
  by (auto simp: fails_only_def lift_def vector_at_def split: if_splits)

lemma fails_only_vector_at_nat:
  "Q (Undefined_behaviour Index_out_of_range) \<Longrightarrow> fails_only Q (lift (vector_at_nat xs i))"
  by (auto simp: fails_only_def lift_def vector_at_nat_def split: if_splits)

lemmas fails_only_intros =
  fails_only_succeed fails_only_fail fails_only_lift_Inr fails_only_and_then
  fails_only_driver_call fails_only_driver_call32 fails_only_system_call
  fails_only_store_wait fails_only_store_get fails_only_vector_at fails_only_vector_at_nat

lemma fails_only_map_block: "fails_only (\<lambda>e. \<not> validation_error e) (map_block env h sz dev)"
  unfolding map_block_def by (intro fails_only_intros) simp_all

lemma fails_only_gather_peers:
  "fails_only (\<lambda>e. \<not> validation_error e) (gather_peers env T keys rank val rs)"
  by (induction rs) (auto intro!: fails_only_intros)

lemma fails_only_store_all_gather:
  "fails_only (\<lambda>e. \<not> validation_error e) (store_all_gather env T rank world_size val)"
proof -
  have "fails_only (\<lambda>e. \<not> validation_error e)
      (and_then (lift (vector_at peer_keys rank)) (\<lambda>k.
       and_then (system_call env (Store_set k payload)) (\<lambda>_.
       gather_peers env T peer_keys rank val [0..<nat (sint world_size)])))" for peer_keys payload
    by (intro fails_only_intros fails_only_gather_peers) simp_all
  then show ?thesis
    unfolding fails_only_def store_all_gather_def Let_def by blast
qed

lemma fails_only_store_barrier:
  "fails_only (\<lambda>e. \<not> validation_error e) (store_barrier env rank world_size)"
  unfolding store_barrier_def
  by (intro fails_only_intros fails_only_store_all_gather)

lemma fails_only_gather_requests:
  "fails_only (\<lambda>e. \<not> validation_error e) (gather_requests env b)"
  unfolding gather_requests_def Let_def
  by (intro fails_only_intros fails_only_store_all_gather) simp_all

lemma fails_only_import_peers:
  "fails_only (\<lambda>e. \<not> validation_error e) (import_peers env b p rank reqs rs)"
  by (induction rs)
    (auto intro!: fails_only_intros fails_only_map_block simp: import_remote_fd_def)

lemma fails_only_construct:
  "fails_only (\<lambda>e. \<not> validation_error e)
     (construct_symmetric_memory env hs bsize bufs pads bufsize dev rank world_size)"
  unfolding construct_symmetric_memory_def Let_def
  by (intro fails_only_intros) simp_all

lemma validation_error_iff:
  "validation_error e \<longleftrightarrow>
     e \<in> {Check_failed Request_count, Check_failed Overlapping_devices,
          Check_failed Block_size_mismatch, Check_failed Buffer_size_mismatch,
          Check_failed Signal_pad_offset_mismatch}"
  by (cases e rule: validation_error.cases) simp_all

text \<open>
  After the validation, \<open>rendezvous\<close> throws none of the validation failures; up to the
  validation it makes no call that imports or maps.
\<close>

lemma map_peers_after_validation:
  assumes "validate_rendezvous_requests reqs (gi_world_size (get_group_info env (group_name b))) = Inr ()"
    and "map_peers env p b block_fd reqs s = (Inl e, s')"
  shows "\<not> validation_error e"
proof -
  let ?gi = "get_group_info env (group_name b)"
  have "fails_only (\<lambda>e. \<not> validation_error e)
     (and_then (import_peers env b p (gi_rank ?gi) reqs [0..<nat (sint (gi_world_size ?gi))])
        (\<lambda>mapped.
      and_then (store_barrier env (gi_rank ?gi) (gi_world_size ?gi)) (\<lambda>_.
      and_then (system_call env (Close block_fd)) (\<lambda>_.
      construct_symmetric_memory env (map fst mapped) (block_size b)
        (map (\<lambda>t. fst (snd t)) mapped) (map (\<lambda>t. snd (snd t)) mapped)
        (buffer_size b) (device_idx b) (gi_rank ?gi) (gi_world_size ?gi)))))"
    by (intro fails_only_intros fails_only_import_peers fails_only_store_barrier
        fails_only_construct)
  moreover have "and_then (import_peers env b p (gi_rank ?gi) reqs [0..<nat (sint (gi_world_size ?gi))])
        (\<lambda>mapped.
      and_then (store_barrier env (gi_rank ?gi) (gi_world_size ?gi)) (\<lambda>_.
      and_then (system_call env (Close block_fd)) (\<lambda>_.
      construct_symmetric_memory env (map fst mapped) (block_size b)
        (map (\<lambda>t. fst (snd t)) mapped) (map (\<lambda>t. snd (snd t)) mapped)
        (buffer_size b) (device_idx b) (gi_rank ?gi) (gi_world_size ?gi)))) s = (Inl e, s')"
    using assms by (simp add: map_peers_def Let_def)
  ultimately show ?thesis
    unfolding fails_only_def by blast
qed

lemma map_peers_validation_fails:
  assumes "validate_rendezvous_requests reqs (gi_world_size (get_group_info env (group_name b))) = Inl e"
  shows "map_peers env p b block_fd reqs s = (Inl e, s)"
  using assms by (simp add: map_peers_def Let_def fail_def)

lemma gather_requests_calls:
  assumes "gather_requests env b s = (r, s1)"
  shows "trace s1 = trace s @ calls_since s s1"
    "list_all (\<lambda>c. \<not> imports_or_maps c) (calls_since s s1)"
    "ptr_to_block s1 = ptr_to_block s"
proof -
  have "extends_by (\<lambda>e. \<not> imports_or_maps e \<and> \<not> unmaps_or_releases e) s s1"
    using calls_only_gather_requests assms by (simp add: calls_only_def)
  then obtain new where n: "trace s1 = trace s @ new"
      "list_all (\<lambda>e. \<not> imports_or_maps e \<and> \<not> unmaps_or_releases e) new"
      "ptr_to_block s1 = ptr_to_block s"
    by (auto simp: extends_by_def)
  then have c: "calls_since s s1 = new"
    by (simp add: calls_since_def)
  show "trace s1 = trace s @ calls_since s s1" "ptr_to_block s1 = ptr_to_block s"
    using n c by simp_all
  show "list_all (\<lambda>c. \<not> imports_or_maps c) (calls_since s s1)"
    using n(2) c by (simp add: list_all_iff)
qed

lemma rendezvous_validation_failure:
  assumes "rendezvous env p s = (Inl e, s')" "validation_error e"
  shows "list_all (\<lambda>c. \<not> imports_or_maps c) (calls_since s s')"
proof -
  obtain b where b: "ptr_to_block s p = Some b" "symm_mem b = None"
      "rendezvous_exchange env p b s = (Inl e, s')"
    using assms
    by (auto simp: rendezvous_def find_block_def split: option.splits prod.splits sum.splits)
  have g: "\<not> validation_error e'" if "gather_requests env b s = (Inl e', s'')" for e' s''
    using fails_only_gather_requests that unfolding fails_only_def by blast
  from b(3) obtain block_fd reqs s1 where s1: "gather_requests env b s = (Inr (block_fd, reqs), s1)"
      "map_peers env p b block_fd reqs s1 = (Inl e, s')"
    using g assms(2) by (auto simp: rendezvous_exchange_def and_then_Inl_iff)
  have "validate_rendezvous_requests reqs (gi_world_size (get_group_info env (group_name b))) \<noteq> Inr ()"
    using map_peers_after_validation [OF _ s1(2)] assms(2) by blast
  then obtain e' where "validate_rendezvous_requests reqs (gi_world_size (get_group_info env (group_name b))) = Inl e'"
    by (cases "validate_rendezvous_requests reqs (gi_world_size (get_group_info env (group_name b)))") auto
  then have "s' = s1"
    using map_peers_validation_fails [of reqs env b e' p block_fd s1] s1(2) by simp
  then show ?thesis
    using gather_requests_calls(2) [OF s1(1)] by simp
qed


text \<open>
  C4. The validation succeeds exactly when the request count is the world size, the
  device indices are pairwise distinct, and block size, buffer size and signal pad
  offset of every request are those of the first; every failure of it is one of its
  five checks. In \<open>rendezvous\<close>, when the gathered requests fail the validation,
  \<open>rendezvous\<close> fails with that check in the state the gathering left; and whenever
  \<open>rendezvous\<close> fails with one of these checks, no call that imports a remote handle
  or maps memory has been made since it began.
\<close>

theorem rendezvous_validation:
  "(length reqs < 2 ^ 63 \<longrightarrow>
      (validate_rendezvous_requests reqs world_size = Inr () \<longleftrightarrow>
         int (length reqs) = sint world_size
         \<and> distinct (map req_device_idx reqs)
         \<and> (\<forall>r<length reqs. req_block_size (reqs ! r) = req_block_size (reqs ! 0)
              \<and> req_buffer_size (reqs ! r) = req_buffer_size (reqs ! 0)
              \<and> req_signal_pad_offset (reqs ! r) = req_signal_pad_offset (reqs ! 0))))
   \<and> (validate_rendezvous_requests reqs world_size = Inl e \<longrightarrow> validation_error e)
   \<and> (ptr_to_block s p = Some b \<and> symm_mem b = None
        \<and> gather_requests env b s = (Inr (block_fd, gathered), s1)
        \<and> validate_rendezvous_requests gathered
              (gi_world_size (get_group_info env (group_name b))) = Inl e
      \<longrightarrow> rendezvous env p s = (Inl e, s1))
   \<and> (rendezvous env p s = (Inl e, s') \<and> validation_error e
      \<longrightarrow> list_all (\<lambda>c. \<not> imports_or_maps c) (calls_since s s'))"
proof -
  have a: "rendezvous env p s = (Inl e, s1)"
    if "ptr_to_block s p = Some b" "symm_mem b = None"
      "gather_requests env b s = (Inr (block_fd, gathered), s1)"
      "validate_rendezvous_requests gathered
              (gi_world_size (get_group_info env (group_name b))) = Inl e"
    using that map_peers_validation_fails [OF that(4), of p block_fd s1]
    by (simp add: rendezvous_def find_block_def rendezvous_exchange_def and_then_def)
  have b: "validation_error e" if "validate_rendezvous_requests reqs world_size = Inl e"
    using validate_fails [OF that] by (simp add: validation_error_iff)
  show ?thesis
    using validate_iff [of reqs world_size] a b rendezvous_validation_failure [of env p s e s']
    by blast
qed

lemma example_mismatched_codec:
  "length (to_bytes request_layout (\<lambda>i. 255) (example_peer_request\<lparr>req_buffer_size := 8192\<rparr>)) = 40"
  "from_bytes request_layout
     (to_bytes request_layout (\<lambda>i. 255) (example_peer_request\<lparr>req_buffer_size := 8192\<rparr>))
     = example_peer_request\<lparr>req_buffer_size := 8192\<rparr>"
  by code_simp+

lemma example_mismatched_gather:
  "gather_requests example_mismatched_env example_block example_allocated
     = (Inr (10, [example_local_request, example_peer_request\<lparr>req_buffer_size := 8192\<rparr>]),
        example_gathered)"
  by (simp add: gather_requests_def store_all_gather_def example_mismatched_env_def
      example_codec example_mismatched_codec example_local_request_def
      action_defs example_env_simps example_allocated_def example_gathered_def
      example_block_def vector_at_def vector_at_nat_def upt_2 peer_keys_example Let_def)


lemma example_validate:
  "validate_rendezvous_requests [example_local_request, example_peer_request] 2 = Inr ()"
  "validate_rendezvous_requests
     [example_local_request, example_peer_request\<lparr>req_buffer_size := 8192\<rparr>] 2
   = Inl (Check_failed Buffer_size_mismatch)"
  by (simp_all add: validate_rendezvous_requests_def example_local_request_def
      example_peer_request_def upt_2)

theorem rendezvous_validation_witness:
  "validate_rendezvous_requests [example_local_request, example_peer_request] 2 = Inr ()
   \<and> distinct (map req_device_idx [example_local_request, example_peer_request])
   \<and> validate_rendezvous_requests
         [example_local_request, example_peer_request\<lparr>req_buffer_size := 8192\<rparr>] 2
       = Inl (Check_failed Buffer_size_mismatch)
   \<and> validation_error (Check_failed Buffer_size_mismatch)
   \<and> rendezvous example_mismatched_env 6291456 example_allocated
       = (Inl (Check_failed Buffer_size_mismatch), example_gathered)
   \<and> list_all (\<lambda>c. \<not> imports_or_maps c) (calls_since example_allocated example_gathered)"
proof -
  have a: "ptr_to_block example_allocated 6291456 = Some example_block"
    "symm_mem example_block = None"
    "gi_world_size (get_group_info example_mismatched_env (group_name example_block)) = 2"
    by (simp_all add: example_allocated_def example_block_def example_mismatched_env_def
        example_env_simps)
  have v: "validate_rendezvous_requests
             [example_local_request, example_peer_request\<lparr>req_buffer_size := 8192\<rparr>]
             (gi_world_size (get_group_info example_mismatched_env (group_name example_block)))
           = Inl (Check_failed Buffer_size_mismatch)"
    unfolding a(3) by (rule example_validate(2))
  have l: "length [example_local_request, example_peer_request] < 2 ^ 63"
    by simp
  note t1 = rendezvous_validation
      [of "[example_local_request, example_peer_request]" 2
          "Check_failed Buffer_size_mismatch" example_allocated 6291456 example_block
          example_mismatched_env 10
          "[example_local_request, example_peer_request\<lparr>req_buffer_size := 8192\<rparr>]"
          example_gathered example_gathered]
  have r: "rendezvous example_mismatched_env 6291456 example_allocated
             = (Inl (Check_failed Buffer_size_mismatch), example_gathered)"
    using t1 a(1,2) example_mismatched_gather v by blast
  have m: "list_all (\<lambda>c. \<not> imports_or_maps c) (calls_since example_allocated example_gathered)"
    using t1 r by simp
  have d: "distinct (map req_device_idx [example_local_request, example_peer_request])"
    using t1 l example_validate(1) by blast
  show ?thesis
    using r m d example_validate by simp
qed

section \<open>Keys of the store rounds\<close>

lemma digit_cases:
  assumes "(d :: nat) < 10"
  obtains "d = 0" | "d = 1" | "d = 2" | "d = 3" | "d = 4" | "d = 5" | "d = 6" | "d = 7"
    | "d = 8" | "d = 9"
proof -
  have "d = 0 \<or> d = 1 \<or> d = 2 \<or> d = 3 \<or> d = 4 \<or> d = 5 \<or> d = 6 \<or> d = 7 \<or> d = 8 \<or> d = 9"
    using assms by presburger
  then show thesis
    using that by blast
qed

lemma digit_value_digit: "d < 10 \<Longrightarrow> digit_value (digit d) = d"
  by (erule digit_cases) (simp_all add: digit_value_def digit_def)

lemma digit_not_slash: "d < 10 \<Longrightarrow> digit d \<noteq> CHR ''/''"
  by (erule digit_cases) (simp_all add: digit_def)

lemma decimal_no_slash: "CHR ''/'' \<notin> set (decimal n)"
proof (induction n rule: decimal.induct)
  case (1 n)
  show ?case
  proof (cases "n < 10")
    case True
    then show ?thesis
      using digit_not_slash [of n] by (simp add: decimal.simps [of n])
  next
    case False
    then show ?thesis
      using 1 digit_not_slash [of "n mod 10"] by (simp add: decimal.simps [of n])
  qed
qed

lemma of_decimal_snoc: "of_decimal (cs @ [c]) = 10 * of_decimal cs + digit_value c"
  by (simp add: of_decimal_def)

lemma of_decimal_decimal: "of_decimal (decimal n) = n"
proof (induction n rule: decimal.induct)
  case (1 n)
  show ?case
  proof (cases "n < 10")
    case True
    then show ?thesis
      by (simp add: decimal.simps [of n] of_decimal_def digit_value_digit)
  next
    case False
    then have "of_decimal (decimal n) = 10 * of_decimal (decimal (n div 10)) + digit_value (digit (n mod 10))"
      by (simp add: decimal.simps [of n] of_decimal_snoc)
    then show ?thesis
      using 1 False by (simp add: digit_value_digit)
  qed
qed

lemma decimal_inj: "decimal a = decimal b \<longleftrightarrow> a = b"
proof
  assume "decimal a = decimal b"
  then have "of_decimal (decimal a) = of_decimal (decimal b)"
    by (rule arg_cong)
  then show "a = b"
    by (simp only: of_decimal_decimal)
next
  assume "a = b"
  then show "decimal a = decimal b"
    by (rule arg_cong)
qed

lemma peer_key_inj: "peer_key seq r = peer_key seq' r' \<longleftrightarrow> seq = seq' \<and> r = r'"
proof -
  have "peer_key seq r = peer_key seq' r' \<longleftrightarrow>
      decimal (unat seq) @ CHR ''/'' # decimal r = decimal (unat seq') @ CHR ''/'' # decimal r'"
    by (simp add: peer_key_def)
  also have "\<dots> \<longleftrightarrow> decimal (unat seq) = decimal (unat seq') \<and> decimal r = decimal r'"
    by (rule append_Cons_eq_iff) (rule decimal_no_slash)+
  also have "\<dots> \<longleftrightarrow> seq = seq' \<and> r = r'"
    by (simp add: decimal_inj word_unat_eq_iff)
  finally show ?thesis .
qed

lemma rounds_differ:
  fixes c :: size_t
  assumes "i < j" "j < 2 ^ 64"
  shows "c + of_nat i \<noteq> c + of_nat j"
proof
  assume "c + of_nat i = c + of_nat j"
  then have "(of_nat i :: size_t) = of_nat j"
    by simp
  then have "unat (of_nat i :: size_t) = unat (of_nat j :: size_t)"
    by simp
  then have "i = j"
    using assms by (simp add: unat_of_nat)
  then show False
    using assms by simp
qed


lemma store_wait_cases:
  assumes "store_wait env k s = (r, s')"
  shows "s' = s\<lparr>trace := trace s @ [Store_wait k]\<rparr> \<and> (r = Inr () \<or> r = Inl Store_blocked)"
  using assms by (auto simp: store_wait_def split: if_splits)

lemma store_get_cases:
  assumes "store_get env k s = (r, s')"
  shows "s' = s\<lparr>trace := trace s @ [Store_get k]\<rparr> \<and> (\<exists>bs. r = Inr bs)"
  using assms by (auto simp: store_get_def)

lemma gather_peers_calls:
  assumes "\<forall>r\<in>set rs. r < length keys \<and> keys ! r = peer_key seq r"
    and "gather_peers env T keys rank val rs s = (res, s')"
  shows "\<exists>reads rest. trace s' = trace s @ reads \<and> peer_reads seq rank rs = reads @ rest
           \<and> (\<forall>vs. res = Inr vs \<longrightarrow> rest = [] \<and> length vs = length rs)
           \<and> store_comm_seq_id s' = store_comm_seq_id s"
  using assms
proof (induction rs arbitrary: s res s')
  case Nil
  then show ?case
    by (auto simp: succeed_def peer_reads_def)
next
  case (Cons r rs)
  have keys: "\<forall>r\<in>set rs. r < length keys \<and> keys ! r = peer_key seq r"
    using Cons.prems(1) by simp
  show ?case
  proof (cases "int r = sint rank")
    case True
    have pr: "peer_reads seq rank (r # rs) = peer_reads seq rank rs"
      using True by (simp add: peer_reads_def)
    from Cons.prems(2) True
    have "and_then (gather_peers env T keys rank val rs) (\<lambda>peer_vals. succeed (val # peer_vals)) s
            = (res, s')"
      by simp
    then show ?thesis
    proof (cases rule: and_then_cases)
      case (failed e)
      then show ?thesis
        using Cons.IH [OF keys failed(1)] pr by auto
    next
      case (went_on vs s1)
      then have "s' = s1" "res = Inr (val # vs)"
        by (simp_all add: succeed_def)
      then show ?thesis
        using Cons.IH [OF keys went_on(1)] pr by auto
    qed
  next
    case False
    let ?k = "peer_key seq r"
    have pr: "peer_reads seq rank (r # rs) = Store_wait ?k # Store_get ?k # peer_reads seq rank rs"
      using False by (simp add: peer_reads_def)
    have k: "vector_at_nat keys r = Inr ?k"
      using Cons.prems(1) by (simp add: vector_at_nat_def)
    from Cons.prems(2) False k
    have run: "and_then (store_wait env ?k) (\<lambda>_.
        and_then (store_get env ?k) (\<lambda>payload.
        if length payload \<noteq> size_of T then fail (Check_failed Payload_size)
        else
          and_then (gather_peers env T keys rank val rs) (\<lambda>peer_vals.
          succeed (from_bytes T payload # peer_vals)))) s = (res, s')"
      by simp
    then show ?thesis
    proof (cases rule: and_then_cases)
      case (failed e)
      then show ?thesis
        using store_wait_cases [OF failed(1)] pr by auto
    next
      case w: (went_on u s1)
      have s1: "s1 = s\<lparr>trace := trace s @ [Store_wait ?k]\<rparr>"
        using store_wait_cases [OF w(1)] by simp
      from w(2) show ?thesis
      proof (cases rule: and_then_cases)
        case (failed e)
        then show ?thesis
          using store_get_cases [OF failed(1)] by auto
      next
        case g: (went_on payload s2)
        have s2: "s2 = s\<lparr>trace := trace s @ [Store_wait ?k, Store_get ?k]\<rparr>"
          using store_get_cases [OF g(1)] s1 by simp
        show ?thesis
        proof (cases "length payload \<noteq> size_of T")
          case True
          then have "s' = s2" "res = Inl (Check_failed Payload_size)"
            using g(2) by (simp_all add: fail_def)
          then show ?thesis
            using s2 pr by auto
        next
          case False
          then have "and_then (gather_peers env T keys rank val rs) (\<lambda>peer_vals.
                 succeed (from_bytes T payload # peer_vals)) s2 = (res, s')"
            using g(2) by simp
          then show ?thesis
          proof (cases rule: and_then_cases)
            case (failed e)
            then show ?thesis
              using Cons.IH [OF keys failed(1)] s2 pr by auto
          next
            case (went_on vs s3)
            then have "s' = s3" "res = Inr (from_bytes T payload # vs)"
              by (simp_all add: succeed_def)
            then show ?thesis
              using Cons.IH [OF keys went_on(1)] s2 pr by auto
          qed
        qed
      qed
    qed
  qed
qed


lemma store_all_gather_round:
  assumes rank: "0 \<le> sint rank" "sint rank < sint world_size"
    and run: "store_all_gather env T rank world_size val s = (res, s')"
  shows "store_comm_seq_id s' = store_comm_seq_id s + 1
     \<and> (\<exists>reads rest.
           calls_since s s'
             = Store_set (peer_key (store_comm_seq_id s) (nat (sint rank))) (to_bytes T (env_padding env (trace s)) val) # reads
           \<and> peer_reads (store_comm_seq_id s) rank [0..<nat (sint world_size)] = reads @ rest
           \<and> (\<forall>vs. res = Inr vs \<longrightarrow> rest = [] \<and> length vs = nat (sint world_size)))"
proof -
  let ?seq = "store_comm_seq_id s"
  let ?n = "nat (sint world_size)"
  let ?keys = "map (peer_key ?seq) [0..<?n]"
  let ?s1 = "s\<lparr>store_comm_seq_id := ?seq + 1\<rparr>"
  let ?k = "peer_key ?seq (nat (sint rank))"
  have r: "nat (sint rank) < length ?keys"
    using rank by simp
  have k: "vector_at ?keys rank = Inr ?k"
    using vector_at_in_range [OF rank(1) r] rank by simp
  have keys: "\<forall>r\<in>set [0..<?n]. r < length ?keys \<and> ?keys ! r = peer_key ?seq r"
    by simp
  let ?s2 = "?s1\<lparr>trace := trace ?s1 @ [Store_set ?k (to_bytes T (env_padding env (trace s)) val)]\<rparr>"
  have l: "lift (vector_at ?keys rank) ?s1 = (Inr ?k, ?s1)"
    by (simp only: k lift_def)
  have c: "system_call env (Store_set ?k (to_bytes T (env_padding env (trace s)) val)) ?s1
      = (Inr (env_value32 env (trace ?s1) (Store_set ?k (to_bytes T (env_padding env (trace s)) val))), ?s2)"
    by (simp only: system_call_def)
  have "store_all_gather env T rank world_size val s
      = gather_peers env T ?keys rank val [0..<?n] ?s2"
    by (simp only: store_all_gather_def Let_def and_then_def l c prod.case sum.case)
  then have gp: "gather_peers env T ?keys rank val [0..<?n] ?s2 = (res, s')"
    using run by (simp only:)
  have "\<exists>reads rest. trace s' = trace ?s2 @ reads
      \<and> peer_reads ?seq rank [0..<?n] = reads @ rest
      \<and> (\<forall>vs. res = Inr vs \<longrightarrow> rest = [] \<and> length vs = length [0..<?n])
      \<and> store_comm_seq_id s' = store_comm_seq_id ?s2"
    by (rule gather_peers_calls [OF keys gp])
  then obtain reads rest where g: "trace s' = trace ?s2 @ reads"
      "peer_reads ?seq rank [0..<?n] = reads @ rest"
      "\<forall>vs. res = Inr vs \<longrightarrow> rest = [] \<and> length vs = length [0..<?n]"
      "store_comm_seq_id s' = store_comm_seq_id ?s2"
    by (elim exE conjE)
  have t: "trace s' = trace s @ Store_set ?k (to_bytes T (env_padding env (trace s)) val) # reads"
    using g(1) by simp
  have cs: "calls_since s s' = Store_set ?k (to_bytes T (env_padding env (trace s)) val) # reads"
    unfolding calls_since_def t by simp
  have sq: "store_comm_seq_id s' = ?seq + 1"
    using g(4) by simp
  have len: "\<forall>vs. res = Inr vs \<longrightarrow> rest = [] \<and> length vs = ?n"
    using g(3) by simp
  show ?thesis
    by (intro conjI exI [of _ reads] exI [of _ rest] sq cs g(2) len)
qed

lemma key_round_peer_key: "key_round (peer_key seq r) = unat seq"
proof -
  have "takeWhile (\<lambda>c. c \<noteq> CHR ''/'') (decimal (unat seq) @ CHR ''/'' # decimal r)
      = decimal (unat seq)"
    using decimal_no_slash [of "unat seq"] by (auto simp: takeWhile_tail)
  then show ?thesis
    by (simp add: key_round_def peer_key_def of_decimal_decimal)
qed

lemma rounds_append: "rounds (xs @ ys) = foldl record_call (rounds xs) ys"
  by (simp add: rounds_def)

lemma rounds_snoc: "rounds (xs @ [e]) = record_call (rounds xs) e"
  by (simp add: rounds_def)

lemma rounds_numbered_fields [simp]:
  "rounds_numbered (s\<lparr>ptr_to_block := a\<rparr>) = rounds_numbered s"
  "rounds_numbered (s\<lparr>symm_objects := b\<rparr>) = rounds_numbered s"
  "rounds_numbered (s\<lparr>refcount := c\<rparr>) = rounds_numbered s"
  "rounds_numbered (s\<lparr>next_object := d\<rparr>) = rounds_numbered s"
  by (simp_all add: rounds_numbered_def)

lemma rounds_numbered_quiet:
  assumes "record_call (rounds (trace s)) e = rounds (trace s)"
  shows "rounds_numbered (s\<lparr>trace := trace s @ [e]\<rparr>) = rounds_numbered s"
  using assms by (simp add: rounds_numbered_def rounds_snoc)

lemma advancesD:
  assumes "advances n m" "m s = (r, s')"
  shows "\<exists>j\<le>n. store_comm_seq_id s' = store_comm_seq_id s + of_nat j"
    and "rounds_numbered s \<Longrightarrow> unat (store_comm_seq_id s) + n < 2 ^ 64 \<Longrightarrow> rounds_numbered s'"
  using assms by (simp_all add: advances_def)

lemma advances_mono:
  assumes "advances n m" "n \<le> k"
  shows "advances k m"
  unfolding advances_def
proof (intro allI impI conjI)
  fix s r s' assume run: "m s = (r, s')"
  obtain j where "j \<le> n" "store_comm_seq_id s' = store_comm_seq_id s + of_nat j"
    using advancesD(1) [OF assms(1) run] by blast
  then show "\<exists>j\<le>k. store_comm_seq_id s' = store_comm_seq_id s + of_nat j"
    using assms(2) by (intro exI [of _ j]) simp
  assume "rounds_numbered s \<and> unat (store_comm_seq_id s) + k < 2 ^ 64"
  then show "rounds_numbered s'"
    using advancesD(2) [OF assms(1) run] assms(2) by simp
qed

lemma advances_and_then:
  assumes m: "advances n m" and f: "\<And>x. advances k (f x)"
  shows "advances (n + k) (and_then m f)"
  unfolding advances_def
proof (intro allI impI)
  fix s r s' assume run: "and_then m f s = (r, s')"
  then show "(\<exists>j\<le>n + k. store_comm_seq_id s' = store_comm_seq_id s + of_nat j)
        \<and> (rounds_numbered s \<and> unat (store_comm_seq_id s) + (n + k) < 2 ^ 64
             \<longrightarrow> rounds_numbered s')"
  proof (cases rule: and_then_cases)
    case (failed e)
    have "advances (n + k) m"
      using m by (rule advances_mono) simp
    then show ?thesis
      using failed(1) by (simp add: advances_def)
  next
    case (went_on x s1)
    obtain i where i: "i \<le> n" "store_comm_seq_id s1 = store_comm_seq_id s + of_nat i"
      using advancesD(1) [OF m went_on(1)] by blast
    obtain j where j: "j \<le> k" "store_comm_seq_id s' = store_comm_seq_id s1 + of_nat j"
      using advancesD(1) [OF f went_on(2)] by blast
    have c: "\<exists>j\<le>n + k. store_comm_seq_id s' = store_comm_seq_id s + of_nat j"
      using i j by (intro exI [of _ "i + j"]) simp
    have "rounds_numbered s'"
      if inv: "rounds_numbered s" and b: "unat (store_comm_seq_id s) + (n + k) < 2 ^ 64"
    proof -
      have a: "rounds_numbered s1"
        using inv b by (intro advancesD(2) [OF m went_on(1)]) simp_all
      have "unat (store_comm_seq_id s) + i < 2 ^ LENGTH(64)"
        using b i(1) by simp
      then have "unat (store_comm_seq_id s + of_nat i) = unat (store_comm_seq_id s) + i"
        by (simp add: unat_add_lem [THEN iffD1] unat_of_nat)
      then have "unat (store_comm_seq_id s1) + k < 2 ^ 64"
        using b i by simp
      then show ?thesis
        using a by (intro advancesD(2) [OF f went_on(2)]) simp_all
    qed
    then show ?thesis
      using c by simp
  qed
qed

lemma advances_and_then_0:
  assumes "advances 0 m" "\<And>x. advances 0 (f x)"
  shows "advances 0 (and_then m f)"
  using advances_and_then [OF assms] by simp

lemma advances_succeed: "advances 0 (succeed x)"
  by (simp add: advances_def succeed_def)

lemma advances_fail: "advances 0 (fail e)"
  by (simp add: advances_def fail_def)

lemma advances_lift: "advances 0 (lift x)"
  by (simp add: advances_def lift_def)

lemma advances_update:
  assumes "\<And>s. trace (f s) = trace s" "\<And>s. store_comm_seq_id (f s) = store_comm_seq_id s"
  shows "advances 0 (\<lambda>s. (r s, f s))"
  using assms by (auto simp: advances_def rounds_numbered_def)

lemma advances_if:
  "advances n a \<Longrightarrow> advances n b \<Longrightarrow> advances n (if c then a else b)"
  by simp

lemma advances_case_option:
  "advances n a \<Longrightarrow> (\<And>x. advances n (f x)) \<Longrightarrow> advances n (case v of None \<Rightarrow> a | Some x \<Rightarrow> f x)"
  by (cases v) simp_all

lemma advances_driver_call:
  assumes "\<And>rs. record_call rs e = rs"
  shows "advances 0 (driver_call env e)"
  using assms
  by (auto simp: advances_def driver_call_def rounds_numbered_def rounds_snoc split: if_splits)

lemma advances_driver_call32:
  assumes "\<And>rs. record_call rs e = rs"
  shows "advances 0 (driver_call32 env e)"
  using assms
  by (auto simp: advances_def driver_call32_def rounds_numbered_def rounds_snoc split: if_splits)

lemma advances_system_call:
  assumes "\<And>rs. record_call rs e = rs"
  shows "advances 0 (system_call env e)"
  using assms
  by (auto simp: advances_def system_call_def rounds_numbered_def rounds_snoc)

lemmas advances_intros =
  advances_succeed advances_fail advances_lift advances_and_then_0 advances_if
  advances_case_option advances_driver_call advances_driver_call32 advances_system_call
  advances_update

lemma advances_map_block: "advances 0 (map_block env h sz dev)"
  unfolding map_block_def by (intro advances_intros) (simp_all add: record_call_def)

lemma advances_alloc: "advances 0 (alloc env sz dev grp)"
  unfolding alloc_def Let_def
  by (intro advances_intros advances_map_block) (simp_all add: record_call_def)

lemma advances_unmap_and_release: "advances 0 (unmap_and_release env sm rs)"
  by (induction rs) (auto intro!: advances_intros simp: record_call_def)

lemma advances_destroy: "advances 0 (destroy_symmetric_memory env sm)"
proof -
  have b: "advances 0
     (and_then (driver_call env (Device_guard (sm_local_device_idx sm))) (\<lambda>_.
         and_then (driver_call env Device_synchronize) (\<lambda>_.
         and_then (unmap_and_release env sm [0..<nat (sint (sm_world_size sm))]) (\<lambda>_.
         and_then (system_call env (Raw_delete (sm_buffers_dev sm))) (\<lambda>_.
         and_then (system_call env (Raw_delete (sm_signal_pads_dev sm))) (\<lambda>_.
         succeed ()))))))"
    by (intro advances_intros advances_unmap_and_release) (simp_all add: record_call_def)
  show ?thesis
    unfolding advances_def
  proof (intro allI impI)
    fix s r s' assume run: "destroy_symmetric_memory env sm s = (r, s')"
    show "(\<exists>j\<le>0. store_comm_seq_id s' = store_comm_seq_id s + of_nat j)
        \<and> (rounds_numbered s \<and> unat (store_comm_seq_id s) + 0 < 2 ^ 64 \<longrightarrow> rounds_numbered s')"
    proof (cases "is_finalizing env (trace s)")
      case True
      then show ?thesis
        using run by (auto simp: destroy_symmetric_memory_def)
    next
      case False
      then show ?thesis
        using run b by (simp add: destroy_symmetric_memory_def advances_def)
    qed
  qed
qed

lemma advances_release_reference: "advances 0 (release_reference env obj)"
  unfolding advances_def
proof (intro allI impI)
  fix s r s' assume run: "release_reference env obj s = (r, s')"
  let ?s1 = "s\<lparr>refcount := (refcount s)(obj := refcount s obj - 1)\<rparr>"
  show "(\<exists>j\<le>0. store_comm_seq_id s' = store_comm_seq_id s + of_nat j)
        \<and> (rounds_numbered s \<and> unat (store_comm_seq_id s) + 0 < 2 ^ 64 \<longrightarrow> rounds_numbered s')"
  proof (cases "0 < refcount s obj - 1 \<or> symm_objects s obj = None")
    case True
    then have "s' = ?s1"
      using run by (auto simp: release_reference_def Let_def split: option.splits)
    then show ?thesis
      by simp
  next
    case False
    then obtain sm where sm: "symm_objects s obj = Some sm" and n: "\<not> 0 < refcount s obj - 1"
      by auto
    have "destroy_symmetric_memory env sm (?s1\<lparr>symm_objects := (symm_objects ?s1)(obj := None)\<rparr>)
        = (r, s')"
      using run sm n by (simp add: release_reference_def Let_def)
    then show ?thesis
      using advances_destroy [of env sm] by (simp add: advances_def)
  qed
qed

lemma advances_free: "advances 0 (free env p)"
  unfolding advances_def
proof (intro allI impI)
  fix s r s' assume run: "free env p s = (r, s')"
  show "(\<exists>j\<le>0. store_comm_seq_id s' = store_comm_seq_id s + of_nat j)
        \<and> (rounds_numbered s \<and> unat (store_comm_seq_id s) + 0 < 2 ^ 64 \<longrightarrow> rounds_numbered s')"
  proof (cases "find_block s p")
    case None
    then show ?thesis
      using run by (auto simp: free_def)
  next
    case (Some b)
    show ?thesis
    proof (cases "is_finalizing env (trace s)")
      case True
      then show ?thesis
        using run Some by (auto simp: free_def)
    next
      case False
      have "advances 0
            (and_then
               (case symm_mem b of
                  None \<Rightarrow>
                    and_then (driver_call env (Mem_unmap p (block_size b))) (\<lambda>_.
                    and_then (driver_call env (Mem_release (handle b))) (\<lambda>_.
                    succeed ()))
                | Some _ \<Rightarrow> succeed ()) (\<lambda>_.
             and_then (\<lambda>s'. (Inr (), s'\<lparr>ptr_to_block := (ptr_to_block s')(p := None)\<rparr>)) (\<lambda>_.
             (case symm_mem b of
                None \<Rightarrow> succeed ()
              | Some obj \<Rightarrow> release_reference env obj))))"
        by (intro advances_intros advances_release_reference) (simp_all add: record_call_def)
      then show ?thesis
        using run Some False by (simp add: free_def advances_def)
    qed
  qed
qed

lemma counter_Suc:
  fixes c :: size_t
  assumes "unat c + 1 < 2 ^ 64"
  shows "unat (c + 1) = unat c + 1"
proof -
  have "unat c + unat (1 :: size_t) < 2 ^ LENGTH(64)"
    using assms by simp
  then have "unat (c + 1) = unat c + unat (1 :: size_t)"
    by (simp only: unat_add_lem)
  then show ?thesis
    by simp
qed

lemma record_reads:
  assumes "\<forall>e\<in>set reads. \<exists>r. e = Store_wait (peer_key c r) \<or> e = Store_get (peer_key c r)"
  shows "\<exists>ks. foldl record_call (r0 # rs) reads = (ks @ r0) # rs
           \<and> (\<forall>k\<in>set ks. key_round k = unat c)"
  using assms
proof (induction reads arbitrary: r0)
  case Nil
  show ?case
    by (intro exI [of _ "[]"]) simp
next
  case (Cons e es)
  obtain r where e: "e = Store_wait (peer_key c r) \<or> e = Store_get (peer_key c r)"
    using Cons.prems by auto
  then have "record_call (r0 # rs) e = (peer_key c r # r0) # rs"
    by (auto simp: record_call_def)
  moreover obtain ks where ks: "foldl record_call ((peer_key c r # r0) # rs) es
      = (ks @ peer_key c r # r0) # rs" "\<forall>k\<in>set ks. key_round k = unat c"
    using Cons.IH [of "peer_key c r # r0"] Cons.prems by auto
  ultimately have "foldl record_call (r0 # rs) (e # es) = ((ks @ [peer_key c r]) @ r0) # rs"
    by simp
  moreover have "\<forall>k\<in>set (ks @ [peer_key c r]). key_round k = unat c"
    using ks(2) by (simp add: key_round_peer_key)
  ultimately show ?case
    by blast
qed

lemma peer_reads_events:
  "e \<in> set (peer_reads c rank rs)
     \<Longrightarrow> \<exists>r. e = Store_wait (peer_key c r) \<or> e = Store_get (peer_key c r)"
  by (auto simp: peer_reads_def split: if_splits)

lemma rounds_numbered_counter:
  assumes "rounds_numbered s" "trace s' = trace s"
    "unat (store_comm_seq_id s) \<le> unat (store_comm_seq_id s')"
  shows "rounds_numbered s'"
  using assms by (auto simp: rounds_numbered_def list_all_iff)

lemma rounds_numbered_round:
  assumes inv: "rounds_numbered s"
    and bound: "unat (store_comm_seq_id s) + 1 < 2 ^ 64"
    and tr: "trace s' = trace s @ Store_set (peer_key (store_comm_seq_id s) i) payload # reads"
    and reads: "\<forall>e\<in>set reads. \<exists>r. e = Store_wait (peer_key (store_comm_seq_id s) r)
                  \<or> e = Store_get (peer_key (store_comm_seq_id s) r)"
    and seq: "store_comm_seq_id s' = store_comm_seq_id s + 1"
  shows "rounds_numbered s'"
proof -
  let ?c = "store_comm_seq_id s"
  let ?k = "peer_key ?c i"
  let ?old = "rounds (trace s)"
  obtain ks where ks: "foldl record_call ([?k] # ?old) reads = (ks @ [?k]) # ?old"
      "\<forall>k\<in>set ks. key_round k = unat ?c"
    using record_reads [OF reads, of "[?k]" ?old] by blast
  have "rounds (trace s') = foldl record_call (record_call ?old (Store_set ?k payload)) reads"
    unfolding tr by (simp add: rounds_def)
  then have r: "rounds (trace s') = (ks @ [?k]) # ?old"
    using ks(1) by (simp add: record_call_def)
  have n: "round_number (ks @ [?k]) = unat ?c"
    by (simp add: round_number_def key_round_peer_key)
  have u: "unat (store_comm_seq_id s') = unat ?c + 1"
    unfolding seq using bound by (rule counter_Suc)
  have old: "list_all (\<lambda>r. list_all (\<lambda>k. key_round k = round_number r) r) ?old"
    "sorted_wrt (\<lambda>a b. b < a) (map round_number ?old)"
    "list_all (\<lambda>r. round_number r < unat ?c) ?old"
    using inv by (simp_all add: rounds_numbered_def)
  have a: "list_all (\<lambda>r. list_all (\<lambda>k. key_round k = round_number r) r) ((ks @ [?k]) # ?old)"
    using old(1) ks(2) by (simp add: n key_round_peer_key list_all_iff)
  have b: "sorted_wrt (\<lambda>a b. b < a) (map round_number ((ks @ [?k]) # ?old))"
    using old(2,3) by (simp add: n list_all_iff)
  have c: "list_all (\<lambda>r. round_number r < unat (store_comm_seq_id s')) ((ks @ [?k]) # ?old)"
    using old(3) by (auto simp: n u list_all_iff)
  show ?thesis
    unfolding rounds_numbered_def r using a b c by simp
qed

lemma advances_store_all_gather: "advances 1 (store_all_gather env T rank world_size val)"
  unfolding advances_def
proof (intro allI impI)
  fix s r s' assume run: "store_all_gather env T rank world_size val s = (r, s')"
  let ?c = "store_comm_seq_id s"
  let ?n = "nat (sint world_size)"
  let ?keys = "map (peer_key ?c) [0..<?n]"
  let ?s1 = "s\<lparr>store_comm_seq_id := ?c + 1\<rparr>"
  let ?payload = "to_bytes T (env_padding env (trace s)) val"
  have keys: "\<forall>r\<in>set [0..<?n]. r < length ?keys \<and> ?keys ! r = peer_key ?c r"
    by simp
  have body: "(and_then (lift (vector_at ?keys rank)) (\<lambda>k.
       and_then (system_call env (Store_set k ?payload)) (\<lambda>_.
       gather_peers env T ?keys rank val [0..<?n]))) ?s1 = (r, s')"
    using run by (simp add: store_all_gather_def Let_def)
  have "store_comm_seq_id s' = ?c + 1
      \<and> (rounds_numbered s \<and> unat ?c + 1 < 2 ^ 64 \<longrightarrow> rounds_numbered s')"
  proof (cases "vector_at ?keys rank")
    case (Inl e)
    then have s': "s' = ?s1"
      using body by (simp add: fail_def)
    have "rounds_numbered ?s1" if "rounds_numbered s" "unat ?c + 1 < 2 ^ 64"
      using that(1) by (rule rounds_numbered_counter) (simp_all add: counter_Suc [OF that(2)])
    then show ?thesis
      unfolding s' by simp
  next
    case (Inr k)
    let ?i = "unat (scast rank :: size_t)"
    have k: "k = peer_key ?c ?i"
      using Inr by (auto simp: vector_at_def split: if_splits)
    let ?s2 = "?s1\<lparr>trace := trace s @ [Store_set k ?payload]\<rparr>"
    have "gather_peers env T ?keys rank val [0..<?n] ?s2 = (r, s')"
      using body Inr by (simp add: and_then_def system_call_def)
    then have "\<exists>reads rest. trace s' = trace ?s2 @ reads
        \<and> peer_reads ?c rank [0..<?n] = reads @ rest
        \<and> (\<forall>vs. r = Inr vs \<longrightarrow> rest = [] \<and> length vs = length [0..<?n])
        \<and> store_comm_seq_id s' = store_comm_seq_id ?s2"
      by (rule gather_peers_calls [OF keys])
    then obtain reads rest where g: "trace s' = trace ?s2 @ reads"
        "peer_reads ?c rank [0..<?n] = reads @ rest" "store_comm_seq_id s' = store_comm_seq_id ?s2"
      by blast
    have tr: "trace s' = trace s @ Store_set (peer_key ?c ?i) ?payload # reads"
      using g(1) k by simp
    have "set reads \<subseteq> set (peer_reads ?c rank [0..<?n])"
      unfolding g(2) by simp
    then have reads: "\<forall>e\<in>set reads. \<exists>r. e = Store_wait (peer_key ?c r) \<or> e = Store_get (peer_key ?c r)"
      using peer_reads_events [of _ ?c rank "[0..<?n]"] by blast
    have seq: "store_comm_seq_id s' = ?c + 1"
      using g(3) by simp
    have "rounds_numbered s'" if "rounds_numbered s" "unat ?c + 1 < 2 ^ 64"
      using that tr reads seq by (rule rounds_numbered_round)
    then show ?thesis
      using seq by simp
  qed
  then show "(\<exists>j\<le>1. store_comm_seq_id s' = store_comm_seq_id s + of_nat j)
        \<and> (rounds_numbered s \<and> unat (store_comm_seq_id s) + 1 < 2 ^ 64 \<longrightarrow> rounds_numbered s')"
    by (intro conjI exI [of _ 1]) simp_all
qed

lemma advances_and_then_1_0:
  assumes "advances 1 m" "\<And>x. advances 0 (f x)"
  shows "advances 1 (and_then m f)"
  using advances_and_then [OF assms] by simp

lemma advances_and_then_0_1:
  assumes "advances 0 m" "\<And>x. advances 1 (f x)"
  shows "advances 1 (and_then m f)"
  using advances_and_then [OF assms] by simp

lemma advances_store_barrier: "advances 1 (store_barrier env rank world_size)"
  unfolding store_barrier_def
  by (intro advances_and_then_1_0 advances_store_all_gather advances_succeed)

lemma advances_import_peers: "advances 0 (import_peers env b p rank reqs rs)"
  by (induction rs)
    (auto intro!: advances_intros advances_map_block
      simp: import_remote_fd_def record_call_def)

lemma advances_construct:
  "advances 0 (construct_symmetric_memory env hs bsize bufs pads bufsize dev rank world_size)"
  unfolding construct_symmetric_memory_def Let_def
  by (intro advances_intros) (simp_all add: record_call_def)

lemma advances_gather_requests: "advances 1 (gather_requests env b)"
  unfolding gather_requests_def Let_def
  by (intro advances_and_then_0_1 advances_and_then_1_0 advances_store_all_gather
      advances_intros) (simp_all add: record_call_def)

lemma advances_map_peers: "advances 1 (map_peers env p b block_fd reqs)"
  unfolding map_peers_def Let_def
  by (intro advances_and_then_0_1 advances_and_then_1_0 advances_store_barrier
      advances_import_peers advances_construct advances_intros)
    (simp_all add: record_call_def)

lemma advances_rendezvous_exchange: "advances 2 (rendezvous_exchange env p b)"
proof -
  have mp: "advances 1 (case x of (block_fd, reqs) \<Rightarrow> map_peers env p b block_fd reqs)" for x
    by (cases x) (simp only: prod.case advances_map_peers)
  have "advances (1 + 1) (rendezvous_exchange env p b)"
    unfolding rendezvous_exchange_def
    by (intro advances_and_then advances_gather_requests mp)
  then show ?thesis
    by (rule advances_mono) simp
qed

lemma advances_rendezvous: "advances 2 (rendezvous env p)"
  unfolding advances_def
proof (intro allI impI)
  fix s r s' assume run: "rendezvous env p s = (r, s')"
  show "(\<exists>j\<le>2. store_comm_seq_id s' = store_comm_seq_id s + of_nat j)
        \<and> (rounds_numbered s \<and> unat (store_comm_seq_id s) + 2 < 2 ^ 64 \<longrightarrow> rounds_numbered s')"
  proof (cases "find_block s p")
    case None
    then have "s' = s"
      using run by (simp add: rendezvous_def)
    then show ?thesis
      by (intro conjI exI [of _ 0]) simp_all
  next
    case (Some b)
    show ?thesis
    proof (cases "symm_mem b")
      case (Some obj)
      then have "s' = s\<lparr>refcount := (refcount s)(obj := refcount s obj + 1)\<rparr>"
        using run \<open>find_block s p = Some b\<close> by (simp add: rendezvous_def)
      then show ?thesis
        by (intro conjI exI [of _ 0]) simp_all
    next
      case None
      obtain r1 s1 where x: "rendezvous_exchange env p b s = (r1, s1)"
        by (cases "rendezvous_exchange env p b s")
      have a: "\<exists>j\<le>2. store_comm_seq_id s1 = store_comm_seq_id s + of_nat j"
        "rounds_numbered s \<and> unat (store_comm_seq_id s) + 2 < 2 ^ 64 \<longrightarrow> rounds_numbered s1"
        using advancesD [OF advances_rendezvous_exchange x] by blast+
      have "store_comm_seq_id s' = store_comm_seq_id s1 \<and> rounds_numbered s' = rounds_numbered s1"
        using run \<open>find_block s p = Some b\<close> None x
        by (cases r1) (auto simp: rendezvous_def)
      then show ?thesis
        using a by simp
    qed
  qed
qed

lemma step_advances:
  "(\<exists>j\<le>2. store_comm_seq_id (step env x s) = store_comm_seq_id s + of_nat j)
   \<and> (rounds_numbered s \<and> unat (store_comm_seq_id s) + 2 < 2 ^ 64
        \<longrightarrow> rounds_numbered (step env x s))"
proof -
  have a: "advances 2 (alloc env sz dev grp)" "advances 2 (free env p)"
    "advances 2 (release_reference env obj)" for sz dev grp p obj
    by (rule advances_mono [OF advances_alloc] advances_mono [OF advances_free]
        advances_mono [OF advances_release_reference], simp)+
  have b: "(\<exists>j\<le>2. store_comm_seq_id (snd (m s)) = store_comm_seq_id s + of_nat j)
      \<and> (rounds_numbered s \<and> unat (store_comm_seq_id s) + 2 < 2 ^ 64
        \<longrightarrow> rounds_numbered (snd (m s)))" if "advances 2 m" for m :: "'a action"
    using that by (cases "m s") (simp add: advances_def)
  show ?thesis
    by (cases x) (simp_all add: b a advances_rendezvous)
qed

lemma run_keeps_rounds_numbered:
  "rounds_numbered s \<Longrightarrow> unat (store_comm_seq_id s) + 2 * length ops < 2 ^ 64
     \<Longrightarrow> rounds_numbered (run env ops s)"
proof (induction ops arbitrary: s)
  case Nil
  then show ?case by simp
next
  case (Cons x xs)
  let ?s1 = "step env x s"
  obtain j where j: "j \<le> 2" "store_comm_seq_id ?s1 = store_comm_seq_id s + of_nat j"
    using step_advances [of env x s] by blast
  have a: "rounds_numbered ?s1"
    using step_advances [of env x s] Cons.prems by simp
  have "unat (store_comm_seq_id s) + j < 2 ^ LENGTH(64)"
    using Cons.prems(2) j(1) by simp
  then have "unat (store_comm_seq_id s + of_nat j) = unat (store_comm_seq_id s) + j"
    by (simp add: unat_add_lem [THEN iffD1] unat_of_nat)
  then have "unat (store_comm_seq_id ?s1) + 2 * length xs < 2 ^ 64"
    using Cons.prems(2) j by simp
  then show ?case
    using Cons.IH [OF a] by simp
qed

lemma numbered_rounds_disjoint:
  assumes "rounds_numbered s" "i < j" "j < length (rounds (trace s))"
  shows "set (rounds (trace s) ! i) \<inter> set (rounds (trace s) ! j) = {}"
proof -
  let ?rs = "rounds (trace s)"
  have a: "list_all (\<lambda>r. list_all (\<lambda>k. key_round k = round_number r) r) ?rs"
    and b: "sorted_wrt (\<lambda>a b. b < a) (map round_number ?rs)"
    using assms(1) by (simp_all add: rounds_numbered_def)
  have "round_number (?rs ! j) < round_number (?rs ! i)"
    using sorted_wrt_nth_less [OF b, of i j] assms(2,3) by simp
  moreover have "\<forall>k\<in>set (?rs ! i). key_round k = round_number (?rs ! i)"
    "\<forall>k\<in>set (?rs ! j). key_round k = round_number (?rs ! j)"
    using a assms(2,3) by (simp_all add: list_all_iff)
  ultimately show ?thesis
    by fastforce
qed

lemma host_calls_keep_rounds:
  assumes "put_signal env sm dst ch s = (x, s') \<or> wait_signal env sm dst ch s = (x, s')
      \<or> barrier env sm ch s = (x, s')"
  shows "store_comm_seq_id s' = store_comm_seq_id s \<and> rounds (trace s') = rounds (trace s)"
proof -
  have "advances 0 (put_signal env sm dst ch)" "advances 0 (wait_signal env sm dst ch)"
    "advances 0 (barrier env sm ch)"
    unfolding put_signal_def wait_signal_def barrier_def
    by (intro advances_intros; simp add: record_call_def)+
  then have c: "store_comm_seq_id s' = store_comm_seq_id s"
    using assms by (auto simp: advances_def)
  have "rounds (trace s') = rounds (trace s)"
    using assms
    by (cases "check_channel ch (sm_world_size sm)")
      (auto simp: put_signal_def wait_signal_def barrier_def and_then_def lift_def
        driver_call_def system_call_def succeed_def fail_def rounds_append record_call_def
        split: if_splits)
  then show ?thesis
    using c by simp
qed

text \<open>
  C9. A round of \<open>store_all_gather\<close> or \<open>store_barrier\<close> by a rank of the group
  increments the counter by one, whatever its outcome; it first sets the key of the
  calling rank, which is \<open>"CUDASymmetricMemory/<seq>/<rank>"\<close> for the value \<open>seq\<close>
  the counter had, and then waits on and reads the key of every other rank in rank
  order, until a call fails. Keys are equal only for equal counters and equal ranks, so
  the rounds numbered \<open>i < j < 2 ^ 64\<close> from any counter value share no key. In the
  process, the counter starts at 0 and nothing but a round changes it: after any
  operations on the allocator from a state whose rounds are numbered, the initial state
  being one, the rounds are numbered and no two rounds have a key in common, as long as
  the counter cannot wrap around (each operation runs at most two rounds). The signal
  entry points leave the counter and the rounds as they are.
\<close>

theorem store_round_keys:
  "(0 \<le> sint rank \<and> sint rank < sint world_size
      \<and> store_all_gather env T rank world_size val s = (res, s')
    \<longrightarrow> store_comm_seq_id s' = store_comm_seq_id s + 1
        \<and> (\<exists>reads rest.
              calls_since s s'
                = Store_set (peer_key (store_comm_seq_id s) (nat (sint rank))) (to_bytes T (env_padding env (trace s)) val)
                  # reads
              \<and> peer_reads (store_comm_seq_id s) rank [0..<nat (sint world_size)] = reads @ rest
              \<and> (\<forall>vs. res = Inr vs \<longrightarrow> rest = [] \<and> length vs = nat (sint world_size))))
   \<and> (0 \<le> sint rank \<and> sint rank < sint world_size
      \<and> store_barrier env rank world_size s = (res', s'')
    \<longrightarrow> store_comm_seq_id s'' = store_comm_seq_id s + 1
        \<and> (\<exists>reads rest.
              calls_since s s''
                = Store_set (peer_key (store_comm_seq_id s) (nat (sint rank))) [0, 0, 0, 0]
                  # reads
              \<and> peer_reads (store_comm_seq_id s) rank [0..<nat (sint world_size)] = reads @ rest
              \<and> (res' = Inr () \<longrightarrow> rest = [])))
   \<and> peer_key seq r = ''CUDASymmetricMemory/'' @ decimal (unat seq) @ ''/'' @ decimal r
   \<and> (peer_key seq r = peer_key seq' r') = (seq = seq' \<and> r = r')
   \<and> (i < j \<and> j < 2 ^ 64 \<longrightarrow> peer_key (c + of_nat i) r \<noteq> peer_key (c + of_nat j) r')
   \<and> rounds_numbered initial_state
   \<and> (rounds_numbered st \<and> unat (store_comm_seq_id st) + 2 * length ops < 2 ^ 64
      \<longrightarrow> rounds_numbered (run env ops st)
        \<and> (\<forall>m n. m < n \<and> n < length (rounds (trace (run env ops st)))
              \<longrightarrow> set (rounds (trace (run env ops st)) ! m)
                    \<inter> set (rounds (trace (run env ops st)) ! n) = {}))
   \<and> (put_signal env sm dst ch st = (x, st') \<or> wait_signal env sm dst ch st = (x, st')
        \<or> barrier env sm ch st = (x, st')
      \<longrightarrow> store_comm_seq_id st' = store_comm_seq_id st
        \<and> rounds (trace st') = rounds (trace st))"
proof -
  have b: "store_comm_seq_id s'' = store_comm_seq_id s + 1
        \<and> (\<exists>reads rest.
              calls_since s s''
                = Store_set (peer_key (store_comm_seq_id s) (nat (sint rank))) [0, 0, 0, 0]
                  # reads
              \<and> peer_reads (store_comm_seq_id s) rank [0..<nat (sint world_size)] = reads @ rest
              \<and> (res' = Inr () \<longrightarrow> rest = []))"
    if rank: "0 \<le> sint rank" "sint rank < sint world_size"
      and run: "store_barrier env rank world_size s = (res', s'')"
  proof -
    have z: "to_bytes int_layout pad 0 = [0, 0, 0, 0]" for pad
      by (simp add: int_layout_def le_bytes_def upt_rec)
    obtain res0 where g: "store_all_gather env int_layout rank world_size 0 s = (res0, s'')"
        "res' = Inr () \<longrightarrow> (\<exists>vs. res0 = Inr vs)"
      using run by (auto simp: store_barrier_def and_then_def succeed_def split: prod.splits sum.splits)
    obtain reads rest where rr: "store_comm_seq_id s'' = store_comm_seq_id s + 1"
        "calls_since s s''
           = Store_set (peer_key (store_comm_seq_id s) (nat (sint rank))) (to_bytes int_layout (env_padding env (trace s)) 0)
             # reads"
        "peer_reads (store_comm_seq_id s) rank [0..<nat (sint world_size)] = reads @ rest"
        "\<forall>vs. res0 = Inr vs \<longrightarrow> rest = [] \<and> length vs = nat (sint world_size)"
      using store_all_gather_round [OF rank g(1)] by auto
    have "res' = Inr () \<longrightarrow> rest = []"
      using rr(4) g(2) by auto
    then show ?thesis
      using rr(1,2,3) unfolding z by auto
  qed
  have k: "peer_key seq r = ''CUDASymmetricMemory/'' @ decimal (unat seq) @ ''/'' @ decimal r"
    by (simp add: peer_key_def store_comm_prefix_def)
  have d: "peer_key (c + of_nat i) r \<noteq> peer_key (c + of_nat j) r'" if "i < j" "j < 2 ^ 64"
    using rounds_differ [OF that, of c] by (simp add: peer_key_inj)
  have a: "0 \<le> sint rank \<and> sint rank < sint world_size
      \<and> store_all_gather env T rank world_size val s = (res, s')
    \<longrightarrow> store_comm_seq_id s' = store_comm_seq_id s + 1
        \<and> (\<exists>reads rest.
              calls_since s s'
                = Store_set (peer_key (store_comm_seq_id s) (nat (sint rank))) (to_bytes T (env_padding env (trace s)) val)
                  # reads
              \<and> peer_reads (store_comm_seq_id s) rank [0..<nat (sint world_size)] = reads @ rest
              \<and> (\<forall>vs. res = Inr vs \<longrightarrow> rest = [] \<and> length vs = nat (sint world_size)))"
  proof (intro impI)
    assume h: "0 \<le> sint rank \<and> sint rank < sint world_size
      \<and> store_all_gather env T rank world_size val s = (res, s')"
    show "store_comm_seq_id s' = store_comm_seq_id s + 1
        \<and> (\<exists>reads rest.
              calls_since s s'
                = Store_set (peer_key (store_comm_seq_id s) (nat (sint rank))) (to_bytes T (env_padding env (trace s)) val)
                  # reads
              \<and> peer_reads (store_comm_seq_id s) rank [0..<nat (sint world_size)] = reads @ rest
              \<and> (\<forall>vs. res = Inr vs \<longrightarrow> rest = [] \<and> length vs = nat (sint world_size)))"
      by (rule store_all_gather_round [of rank world_size env T val s res s'])
        (simp_all add: h)
  qed
  have b': "0 \<le> sint rank \<and> sint rank < sint world_size
      \<and> store_barrier env rank world_size s = (res', s'')
    \<longrightarrow> store_comm_seq_id s'' = store_comm_seq_id s + 1
        \<and> (\<exists>reads rest.
              calls_since s s''
                = Store_set (peer_key (store_comm_seq_id s) (nat (sint rank))) [0, 0, 0, 0]
                  # reads
              \<and> peer_reads (store_comm_seq_id s) rank [0..<nat (sint world_size)] = reads @ rest
              \<and> (res' = Inr () \<longrightarrow> rest = []))"
  proof (intro impI)
    assume h: "0 \<le> sint rank \<and> sint rank < sint world_size
      \<and> store_barrier env rank world_size s = (res', s'')"
    show "store_comm_seq_id s'' = store_comm_seq_id s + 1
        \<and> (\<exists>reads rest.
              calls_since s s''
                = Store_set (peer_key (store_comm_seq_id s) (nat (sint rank))) [0, 0, 0, 0]
                  # reads
              \<and> peer_reads (store_comm_seq_id s) rank [0..<nat (sint world_size)] = reads @ rest
              \<and> (res' = Inr () \<longrightarrow> rest = []))"
      by (rule b) (simp_all add: h)
  qed
  have d': "i < j \<and> j < 2 ^ 64 \<longrightarrow> peer_key (c + of_nat i) r \<noteq> peer_key (c + of_nat j) r'"
    using d by blast
  have e: "(peer_key seq r = peer_key seq' r') = (seq = seq' \<and> r = r')"
    by (rule peer_key_inj)
  have init: "rounds_numbered initial_state"
    by (simp add: rounds_numbered_def rounds_def initial_state_def)
  have runs: "rounds_numbered st \<and> unat (store_comm_seq_id st) + 2 * length ops < 2 ^ 64
      \<longrightarrow> rounds_numbered (run env ops st)
        \<and> (\<forall>m n. m < n \<and> n < length (rounds (trace (run env ops st)))
              \<longrightarrow> set (rounds (trace (run env ops st)) ! m)
                    \<inter> set (rounds (trace (run env ops st)) ! n) = {})"
  proof (intro impI conjI allI)
    assume h: "rounds_numbered st \<and> unat (store_comm_seq_id st) + 2 * length ops < 2 ^ 64"
    then show n: "rounds_numbered (run env ops st)"
      by (intro run_keeps_rounds_numbered) simp_all
    fix m n assume "m < n \<and> n < length (rounds (trace (run env ops st)))"
    then show "set (rounds (trace (run env ops st)) ! m)
                    \<inter> set (rounds (trace (run env ops st)) ! n) = {}"
      using n by (intro numbered_rounds_disjoint) simp_all
  qed
  have sig: "put_signal env sm dst ch st = (x, st') \<or> wait_signal env sm dst ch st = (x, st')
        \<or> barrier env sm ch st = (x, st')
      \<longrightarrow> store_comm_seq_id st' = store_comm_seq_id st
        \<and> rounds (trace st') = rounds (trace st)"
    by (intro impI) (rule host_calls_keep_rounds)
  show ?thesis
    by (intro conjI a b' k e d' init runs sig)
qed

theorem store_round_keys_witness:
  "(\<exists>s'. store_all_gather example_env request_layout 0 2 example_local_request initial_state
            = (Inr [example_local_request, example_peer_request], s')
          \<and> store_comm_seq_id s' = 1
          \<and> calls_since initial_state s'
              = [Store_set ''CUDASymmetricMemory/0/0''
                   [0, 0, 0, 0, 10, 0, 0, 0, 11, 0, 0, 0, 204, 204, 204, 204, 0, 0, 32, 0, 0, 0, 0,
                    0, 0, 16, 0, 0, 0, 0, 0, 0, 0, 16, 0, 0, 0, 0, 0, 0],
                 Store_wait ''CUDASymmetricMemory/0/1'',
                 Store_get ''CUDASymmetricMemory/0/1''])
   \<and> (\<exists>s'. store_barrier example_env 0 2 example_gathered = (Inr (), s')
          \<and> store_comm_seq_id s' = 2
          \<and> calls_since example_gathered s'
              = [Store_set ''CUDASymmetricMemory/1/0'' [0, 0, 0, 0],
                 Store_wait ''CUDASymmetricMemory/1/1'',
                 Store_get ''CUDASymmetricMemory/1/1''])
   \<and> peer_key 0 1 \<noteq> peer_key 1 1
   \<and> rounds_numbered initial_state
   \<and> run example_env [Alloc 4096 0 ''g'', Rendezvous 6291456] initial_state
       = example_rendezvoused
   \<and> rounds (trace example_rendezvoused)
       = [[''CUDASymmetricMemory/1/1'', ''CUDASymmetricMemory/1/1'', ''CUDASymmetricMemory/1/0''],
          [''CUDASymmetricMemory/0/1'', ''CUDASymmetricMemory/0/1'', ''CUDASymmetricMemory/0/0'']]
   \<and> rounds_numbered example_rendezvoused
   \<and> set (rounds (trace example_rendezvoused) ! 0)
         \<inter> set (rounds (trace example_rendezvoused) ! 1) = {}
   \<and> store_comm_seq_id (snd (wait_signal example_env example_symm 7 3 example_rendezvoused)) = 2
   \<and> rounds (trace (snd (wait_signal example_env example_symm 7 3 example_rendezvoused)))
       = rounds (trace example_rendezvoused)"
proof -
  obtain res1 s1 where a: "store_all_gather example_env request_layout 0 2 example_local_request
      initial_state = (res1, s1)"
    by (cases "store_all_gather example_env request_layout 0 2 example_local_request
      initial_state")
  have ok1: "res1 = Inr [example_local_request, example_peer_request]"
    using a
    by (simp add: store_all_gather_def example_codec example_local_request_def
        action_defs example_env_simps initial_state_def vector_at_def vector_at_nat_def upt_2
        peer_keys_example Let_def)
  obtain res s' where b: "store_barrier example_env 0 2 example_gathered = (res, s')"
    by (cases "store_barrier example_env 0 2 example_gathered")
  have ok: "res = Inr ()"
    using b
    by (simp add: store_barrier_def store_all_gather_def example_codec
        action_defs example_env_simps example_gathered_def example_allocated_def
        vector_at_def vector_at_nat_def upt_2 peer_keys_example Let_def)
  have r: "(0 :: int) \<le> sint (0 :: c_int) \<and> sint (0 :: c_int) < sint (2 :: c_int)
      \<and> store_all_gather example_env request_layout 0 2 example_local_request
          initial_state = (res1, s1)"
    "(0 :: int) \<le> sint (0 :: c_int) \<and> sint (0 :: c_int) < sint (2 :: c_int)
      \<and> store_barrier example_env 0 2 example_gathered = (res, s')"
    using a b by simp_all
  have q: "store_comm_seq_id initial_state = 0" "store_comm_seq_id example_gathered = 1"
    by (simp_all add: initial_state_def example_gathered_def)
  have p: "peer_reads 0 0 [0..<nat (sint (2 :: c_int))]
      = [Store_wait ''CUDASymmetricMemory/0/1'', Store_get ''CUDASymmetricMemory/0/1'']"
    "peer_reads 1 0 [0..<nat (sint (2 :: c_int))]
      = [Store_wait ''CUDASymmetricMemory/1/1'', Store_get ''CUDASymmetricMemory/1/1'']"
    by (simp_all add: peer_reads_def upt_2 peer_keys_example)
  have v: "to_bytes request_layout (\<lambda>i. 204) example_local_request
      = [0, 0, 0, 0, 10, 0, 0, 0, 11, 0, 0, 0, 204, 204, 204, 204, 0, 0, 32, 0, 0, 0, 0,
         0, 0, 16, 0, 0, 0, 0, 0, 0, 0, 16, 0, 0, 0, 0, 0, 0]"
    unfolding example_local_request_def by (rule example_codec)
  note t1 = store_round_keys
    [of 0 2 example_env request_layout example_local_request initial_state res1 s1 res s'
        0 1 1 1 0 1 0]
  note t2 = store_round_keys
    [of 0 2 example_env int_layout 0 example_gathered "Inr [0, 0]" example_gathered res s'
        0 1 1 1 0 1 0]
  have "store_comm_seq_id s1 = store_comm_seq_id initial_state + 1
        \<and> (\<exists>reads rest.
              calls_since initial_state s1
                = Store_set (peer_key (store_comm_seq_id initial_state) (nat (sint (0 :: c_int))))
                    (to_bytes request_layout (env_padding example_env (trace initial_state))
                       example_local_request)
                  # reads
              \<and> peer_reads (store_comm_seq_id initial_state) 0 [0..<nat (sint (2 :: c_int))]
                  = reads @ rest
              \<and> (\<forall>vs. res1 = Inr vs \<longrightarrow> rest = [] \<and> length vs = nat (sint (2 :: c_int))))"
    using t1 [THEN conjunct1] r(1) by (rule mp)
  then have c1: "store_comm_seq_id s1 = 1
      \<and> calls_since initial_state s1
          = [Store_set ''CUDASymmetricMemory/0/0''
               [0, 0, 0, 0, 10, 0, 0, 0, 11, 0, 0, 0, 204, 204, 204, 204, 0, 0, 32, 0, 0, 0, 0,
                0, 0, 16, 0, 0, 0, 0, 0, 0, 0, 16, 0, 0, 0, 0, 0, 0],
             Store_wait ''CUDASymmetricMemory/0/1'',
             Store_get ''CUDASymmetricMemory/0/1'']"
    unfolding q p using ok1 v by (auto simp: peer_keys_example example_env_simps)
  have "store_comm_seq_id s' = store_comm_seq_id example_gathered + 1
        \<and> (\<exists>reads rest.
              calls_since example_gathered s'
                = Store_set (peer_key (store_comm_seq_id example_gathered) (nat (sint (0 :: c_int))))
                    [0, 0, 0, 0]
                  # reads
              \<and> peer_reads (store_comm_seq_id example_gathered) 0 [0..<nat (sint (2 :: c_int))]
                  = reads @ rest
              \<and> (res = Inr () \<longrightarrow> rest = []))"
    using t2 [THEN conjunct2, THEN conjunct1] r(2) by (rule mp)
  then have c: "store_comm_seq_id s' = 2
      \<and> calls_since example_gathered s'
          = [Store_set ''CUDASymmetricMemory/1/0'' [0, 0, 0, 0],
             Store_wait ''CUDASymmetricMemory/1/1'',
             Store_get ''CUDASymmetricMemory/1/1'']"
    unfolding q p using ok by (auto simp: peer_keys_example)
  have d: "peer_key 0 1 \<noteq> peer_key 1 1"
    using t2 [THEN conjunct2, THEN conjunct2, THEN conjunct2, THEN conjunct2] by simp
  note t3 = store_round_keys
    [where env = example_env and st = initial_state
       and ops = "[Alloc 4096 0 ''g'', Rendezvous 6291456]"]
  have run: "run example_env [Alloc 4096 0 ''g'', Rendezvous 6291456] initial_state
             = example_rendezvoused"
    by (simp only: run.simps step.simps example_alloc_state example_rendezvous_state snd_conv)
  have rs: "rounds (trace example_rendezvoused)
       = [[''CUDASymmetricMemory/1/1'', ''CUDASymmetricMemory/1/1'', ''CUDASymmetricMemory/1/0''],
          [''CUDASymmetricMemory/0/1'', ''CUDASymmetricMemory/0/1'', ''CUDASymmetricMemory/0/0'']]"
    by (simp add: rounds_def record_call_def example_rendezvoused_def)
  note t4 = t3 [THEN conjunct2, THEN conjunct2, THEN conjunct2, THEN conjunct2, THEN conjunct2]
  have init: "rounds_numbered initial_state"
    using t4 by (rule conjunct1)
  have bound: "unat (store_comm_seq_id initial_state)
      + 2 * length [Alloc 4096 0 ''g'', Rendezvous 6291456] < 2 ^ 64"
    by (simp add: initial_state_def)
  have "rounds_numbered example_rendezvoused
        \<and> (\<forall>m n. m < n \<and> n < length (rounds (trace example_rendezvoused))
              \<longrightarrow> set (rounds (trace example_rendezvoused) ! m)
                    \<inter> set (rounds (trace example_rendezvoused) ! n) = {})"
    using t4 [THEN conjunct2] init bound unfolding run by blast
  then have fin: "rounds_numbered example_rendezvoused"
    "set (rounds (trace example_rendezvoused) ! 0)
         \<inter> set (rounds (trace example_rendezvoused) ! 1) = {}"
    using rs by simp_all
  obtain x st' where hw: "wait_signal example_env example_symm 7 3 example_rendezvoused = (x, st')"
    by (cases "wait_signal example_env example_symm 7 3 example_rendezvoused")
  note t5 = store_round_keys
    [where env = example_env and sm = example_symm and dst = 7 and ch = 3
       and st = example_rendezvoused and x = x and st' = st']
  have "store_comm_seq_id st' = store_comm_seq_id example_rendezvoused
        \<and> rounds (trace st') = rounds (trace example_rendezvoused)"
    using t5 [THEN conjunct2, THEN conjunct2, THEN conjunct2, THEN conjunct2, THEN conjunct2,
              THEN conjunct2, THEN conjunct2] hw
    by blast
  then have sig: "store_comm_seq_id (snd (wait_signal example_env example_symm 7 3 example_rendezvoused)) = 2"
    "rounds (trace (snd (wait_signal example_env example_symm 7 3 example_rendezvoused)))
       = rounds (trace example_rendezvoused)"
    using hw by (simp_all add: example_rendezvoused_def)
  show ?thesis
    using a ok1 b ok c1 c d init run rs fin sig
    by (intro conjI exI [of _ s'] exI [of _ s1]) simp_all
qed

end
